theory Spec2Isabelle
  imports
    Main
    "HOL-Library.Word"
    "HOL-Library.Char_ord"
    "HOL-Library.List_Lexorder"
    "HOL-Library.Multiset"
begin

section \<open>Go values: panics and stateful calls\<close>

text \<open>
  A Go call either returns or panics, and it may change memory on the way. A call is a
  function from the memory before the call to its outcome and the memory after it:
  \<open>Inl\<close> carries the panic, \<open>Inr\<close> the returned value.
\<close>

datatype panic =
    PanicValue string
  | NilDereference
  | InterfaceConversion

type_synonym ('s, 'a) go = "'s \<Rightarrow> (panic + 'a) \<times> 's"

section \<open>pkg/collectors/builder.go\<close>

subsection \<open>Metric family generators and the allow/deny policy\<close>

text \<open>
  The struct \<open>metrics.FamilyGenerator\<close> is declared outside the files at hand; builder.go
  reads its fields \<open>Name\<close>, \<open>Help\<close> and \<open>GenerateFunc\<close>.
  Modelled from the spec: the field \<open>Type\<close> (``name, help text, type'',
  \<open>enum{Gauge,Counter,Info,StateSet}\<close>), which builder.go never reads.
  \<open>GenerateFunc\<close> is an arbitrary Go function value: it may panic and it may touch memory
  of type \<open>'s\<close>.
\<close>

datatype MetricType = Gauge | Counter | Info | StateSet

record ('obj, 's, 'fam) FamilyGenerator =
  Name :: string
  Help :: string
  Type :: MetricType
  GenerateFunc :: "'obj \<Rightarrow> ('s, 'fam) go"

text \<open>
  The interface \<open>whiteBlackLister\<close>: two methods from names to booleans. A method of an
  interface value is a dynamic call into code that is not at hand: it returns a boolean
  or it panics (the method of a nil pointer wrapped in the interface does, for one). An
  interface value itself may be nil, so a policy held by a variable is a
  \<open>whiteBlackLister option\<close>.
\<close>

record whiteBlackLister =
  IsIncluded :: "string \<Rightarrow> panic + bool"
  IsExcluded :: "string \<Rightarrow> panic + bool"

text \<open>
  Modelled from the spec: the allow/deny policy itself, whose code (the type behind
  \<open>whiteBlackLister\<close>) is not among the files at hand. Its contract is
  ``\<open>isIncluded(familyName) \<rightarrow> bool\<close>, \<open>isExcluded(familyName) \<rightarrow> bool\<close>. Policy precedence:
  exclusion wins over inclusion when both lists are non-empty and a name matches both
  (explicit deny is authoritative)'', configured by an ``allow-list / deny-list of metric
  family names''. What a name in neither list gets ``is policy-dependent'': it is the
  parameter \<open>admit\<close>.
\<close>

definition allowDenyPolicy :: "string list \<Rightarrow> string list \<Rightarrow> bool \<Rightarrow> whiteBlackLister" where
  "allowDenyPolicy allow deny admit =
     \<lparr>IsIncluded = (\<lambda>n. Inr (if n \<in> set deny then False
                               else if n \<in> set allow then True else admit)),
      IsExcluded = (\<lambda>n. Inr (n \<in> set deny))\<rparr>"

subsection \<open>filterMetricFamilies\<close>

text \<open>
  The loop appends every family whose name the policy includes. Calling \<open>IsIncluded\<close> on
  a nil interface panics; that happens at the first family, so a nil policy with no
  family to filter returns the empty slice. A panic of \<open>IsIncluded\<close> itself ends the
  loop as well.
\<close>

fun filter_loop ::
  "whiteBlackLister option \<Rightarrow> ('obj, 's, 'fam) FamilyGenerator list \<Rightarrow>
   ('obj, 's, 'fam) FamilyGenerator list \<Rightarrow> panic + ('obj, 's, 'fam) FamilyGenerator list"
where
  "filter_loop l [] filtered = Inr filtered"
| "filter_loop l (f # families) filtered =
     (case l of
        None \<Rightarrow> Inl NilDereference
      | Some p \<Rightarrow>
          (case IsIncluded p (Name f) of
             Inl e \<Rightarrow> Inl e
           | Inr included \<Rightarrow>
               if included then filter_loop l families (filtered @ [f])
               else filter_loop l families filtered))"

definition filterMetricFamilies ::
  "whiteBlackLister option \<Rightarrow> ('obj, 's, 'fam) FamilyGenerator list \<Rightarrow>
   panic + ('obj, 's, 'fam) FamilyGenerator list"
where
  "filterMetricFamilies l families = filter_loop l families []"

subsection \<open>extractHelpText\<close>

text \<open>
  \<open>make([]string, len(families))\<close> is a slice of empty strings; the loop stores
  \<open>f.Name + " " + f.Help\<close> at the index of each family.
\<close>

fun help_loop ::
  "nat \<Rightarrow> ('obj, 's, 'fam) FamilyGenerator list \<Rightarrow> string list \<Rightarrow> string list"
where
  "help_loop i [] help = help"
| "help_loop i (f # families) help =
     help_loop (Suc i) families (help[i := Name f @ '' '' @ Help f])"

definition extractHelpText :: "('obj, 's, 'fam) FamilyGenerator list \<Rightarrow> string list" where
  "extractHelpText families = help_loop 0 families (replicate (length families) [])"

subsection \<open>composeMetricGenFuncs\<close>

text \<open>
  The first loop collects the generation functions. The returned closure allocates a
  slice of \<open>len(funcs)\<close> nil interface values (\<open>None\<close>) on every call and stores
  \<open>f(obj)\<close> at the index of each function. Nothing recovers from a panic of \<open>f\<close>: the
  loop stops there and the panic is the outcome of the closure.
\<close>

fun collect_funcs ::
  "('obj, 's, 'fam) FamilyGenerator list \<Rightarrow> ('obj \<Rightarrow> ('s, 'fam) go) list \<Rightarrow>
   ('obj \<Rightarrow> ('s, 'fam) go) list"
where
  "collect_funcs [] funcs = funcs"
| "collect_funcs (f # families) funcs = collect_funcs families (funcs @ [GenerateFunc f])"

fun call_funcs ::
  "'obj \<Rightarrow> nat \<Rightarrow> ('obj \<Rightarrow> ('s, 'fam) go) list \<Rightarrow> 'fam option list \<Rightarrow>
   ('s, 'fam option list) go"
where
  "call_funcs obj i [] families s = (Inr families, s)"
| "call_funcs obj i (f # funcs) families s =
     (case f obj s of
        (Inl e, s') \<Rightarrow> (Inl e, s')
      | (Inr r, s') \<Rightarrow> call_funcs obj (Suc i) funcs (families[i := Some r]) s')"

definition composeMetricGenFuncs ::
  "('obj, 's, 'fam) FamilyGenerator list \<Rightarrow> 'obj \<Rightarrow> ('s, 'fam option list) go"
where
  "composeMetricGenFuncs families =
     (let funcs = collect_funcs families []
      in (\<lambda>obj. call_funcs obj 0 funcs (replicate (length funcs) None)))"

subsection \<open>Stores, collectors and reflectors\<close>

text \<open>
  Modelled from the spec: \<open>metricsstore.NewMetricsStore\<close> and \<open>NewCollector\<close>, which are
  not among the files at hand. The Object Store ``owns ... the ordered list of family
  headers ... fixed at construction time'' and is bound to the composed render function;
  a Collector ``pairs one Object Store with its dump operation''. Both constructors only
  keep what they are given.
\<close>

record ('obj, 's, 'fam) MetricsStore =
  headers :: "string list"
  generateMetricsFunc :: "'obj \<Rightarrow> ('s, 'fam option list) go"

definition NewMetricsStore ::
  "string list \<Rightarrow> ('obj \<Rightarrow> ('s, 'fam option list) go) \<Rightarrow> ('obj, 's, 'fam) MetricsStore"
where
  "NewMetricsStore helpTexts generateFunc =
     \<lparr>headers = helpTexts, generateMetricsFunc = generateFunc\<rparr>"

record ('obj, 's, 'fam) Collector =
  store :: "('obj, 's, 'fam) MetricsStore"

definition NewCollector :: "('obj, 's, 'fam) MetricsStore \<Rightarrow> ('obj, 's, 'fam) Collector" where
  "NewCollector st = \<lparr>store = st\<rparr>"

text \<open>
  \<open>reflectorPerNamespace\<close> starts one goroutine per namespace. The goroutines run
  beside the caller; what the call itself leaves behind is the list of reflectors it
  started, each with the type it expects and the client and namespace of its list/watch.
  The argument of \<open>go reflector.Run(ctx.Done())\<close> is evaluated by the caller, before the
  goroutine starts: with a nil context (\<open>None\<close>) the call \<open>ctx.Done()\<close> panics at the
  first namespace. The client is only stored in the list/watch; nothing calls it here.
\<close>

record 'k Reflector =
  expectedType :: string
  listWatchClient :: "'k option"
  listWatchNamespace :: string

fun reflector_loop ::
  "'c option \<Rightarrow> 'k option \<Rightarrow> string \<Rightarrow> string list \<Rightarrow> 'k Reflector list \<Rightarrow>
   panic + 'k Reflector list"
where
  "reflector_loop context kubeClient expected [] running = Inr running"
| "reflector_loop context kubeClient expected (ns # namespaces) running =
     (case context of
        None \<Rightarrow> Inl NilDereference
      | Some done \<Rightarrow>
          reflector_loop context kubeClient expected namespaces
            (running @ [\<lparr>expectedType = expected, listWatchClient = kubeClient,
                          listWatchNamespace = ns\<rparr>]))"

definition reflectorPerNamespace ::
  "'c option \<Rightarrow> 'k option \<Rightarrow> string \<Rightarrow> string list \<Rightarrow> panic + 'k Reflector list"
where
  "reflectorPerNamespace context kubeClient expected namespaces =
     reflector_loop context kubeClient expected namespaces []"

subsection \<open>Slices of strings in memory\<close>

text \<open>
  A Go slice is a view of a backing array: two slices over one array see each other's
  writes. Backing arrays live at addresses; \<open>next_free\<close> is the first address not yet in use.
  A nil slice is \<open>None\<close>.
\<close>

record arrays =
  cell :: "nat \<Rightarrow> string list"
  next_free :: nat

record slice =
  array :: nat
  offset :: nat
  len :: nat

definition elems :: "arrays \<Rightarrow> slice option \<Rightarrow> string list" where
  "elems mem c =
     (case c of
        None \<Rightarrow> []
      | Some sl \<Rightarrow> take (len sl) (drop (offset sl) (cell mem (array sl))))"

definition write_array :: "arrays \<Rightarrow> nat \<Rightarrow> string list \<Rightarrow> arrays" where
  "write_array mem a xs = mem\<lparr>cell := (cell mem)(a := xs)\<rparr>"

subsection \<open>The Builder\<close>

record ('k, 'o, 'c) Builder =
  kubeClient :: "'k option"
  namespaces :: "string list"
  opts :: "'o option"
  ctx :: "'c option"
  enabledCollectors :: "slice option"
  whiteBlackList :: "whiteBlackLister option"

definition NewBuilder :: "'c option \<Rightarrow> 'o option \<Rightarrow> ('k, 'o, 'c) Builder" where
  "NewBuilder context options =
     \<lparr>kubeClient = None, namespaces = [], opts = options, ctx = context,
      enabledCollectors = None, whiteBlackList = None\<rparr>"

text \<open>
  \<open>WithEnabledCollectors\<close>: \<open>copy := []string{}\<close> is a new slice of length 0, given the
  address \<open>next_free\<close>. Each \<open>append\<close> puts one string behind the elements of \<open>copy\<close>; no other
  slice refers to the array of \<open>copy\<close>, so whether \<open>append\<close> moves it is not observable and
  the array keeps its address. \<open>sort.Strings\<close> (Go's library) rearranges the elements of
  the slice, in place, into increasing order of Go's \<open><\<close> on strings, which compares byte
  by byte; the order being linear, the outcome is the list \<open>sort\<close> returns.
\<close>

fun append_loop :: "string list \<Rightarrow> arrays \<Rightarrow> slice \<Rightarrow> arrays \<times> slice" where
  "append_loop [] mem copy = (mem, copy)"
| "append_loop (s # c) mem copy =
     append_loop c
       (write_array mem (array copy)
          (take (offset copy + len copy) (cell mem (array copy)) @ [s]))
       (copy\<lparr>len := Suc (len copy)\<rparr>)"

definition sort_Strings :: "arrays \<Rightarrow> slice \<Rightarrow> arrays" where
  "sort_Strings mem sl =
     (let a = cell mem (array sl)
      in write_array mem (array sl)
           (take (offset sl) a @ sort (take (len sl) (drop (offset sl) a))
            @ drop (offset sl + len sl) a))"

definition WithEnabledCollectors ::
  "arrays \<Rightarrow> ('k, 'o, 'c) Builder \<Rightarrow> slice option \<Rightarrow> arrays \<times> ('k, 'o, 'c) Builder"
where
  "WithEnabledCollectors mem b c =
     (let copy0 = \<lparr>array = next_free mem, offset = 0, len = 0\<rparr>;
          mem0 = (write_array mem (next_free mem) [])\<lparr>next_free := Suc (next_free mem)\<rparr>;
          (mem1, copy) = append_loop (elems mem0 c) mem0 copy0;
          mem2 = sort_Strings mem1 copy
      in (mem2, b\<lparr>enabledCollectors := Some copy\<rparr>))"

definition WithNamespaces :: "('k, 'o, 'c) Builder \<Rightarrow> string list \<Rightarrow> ('k, 'o, 'c) Builder" where
  "WithNamespaces b n = b\<lparr>namespaces := n\<rparr>"

definition WithKubeClient :: "('k, 'o, 'c) Builder \<Rightarrow> 'k option \<Rightarrow> ('k, 'o, 'c) Builder" where
  "WithKubeClient b c = b\<lparr>kubeClient := c\<rparr>"

definition WithWhiteBlackList ::
  "('k, 'o, 'c) Builder \<Rightarrow> whiteBlackLister option \<Rightarrow> ('k, 'o, 'c) Builder"
where
  "WithWhiteBlackList b l = b\<lparr>whiteBlackList := l\<rparr>"

subsection \<open>The collector constructors\<close>

text \<open>
  The tables \<open>daemonSetMetricFamilies\<close>, \<open>podMetricFamilies\<close> and \<open>serviceMetricFamilies\<close>
  are package variables declared in other files; they are parameters here.
  \<open>buildDaemonSetCollector\<close>, \<open>buildServiceCollector\<close> and \<open>buildPodCollector\<close> have one
  body, instantiated with a table and the type the reflectors expect.
\<close>

record ('obj, 's, 'fam) familyTables =
  daemonSetMetricFamilies :: "('obj, 's, 'fam) FamilyGenerator list"
  podMetricFamilies :: "('obj, 's, 'fam) FamilyGenerator list"
  serviceMetricFamilies :: "('obj, 's, 'fam) FamilyGenerator list"

definition build_collector ::
  "('obj, 's, 'fam) FamilyGenerator list \<Rightarrow> string \<Rightarrow> ('k, 'o, 'c) Builder \<Rightarrow>
   panic + (('obj, 's, 'fam) Collector \<times> 'k Reflector list)"
where
  "build_collector families expected b =
     (case filterMetricFamilies (whiteBlackList b) families of
        Inl e \<Rightarrow> Inl e
      | Inr filteredMetricFamilies \<Rightarrow>
          (let composedMetricGenFuncs = composeMetricGenFuncs filteredMetricFamilies;
               helpTexts = extractHelpText filteredMetricFamilies;
               st = NewMetricsStore helpTexts composedMetricGenFuncs
           in case reflectorPerNamespace (ctx b) (kubeClient b) expected (namespaces b) of
                Inl e \<Rightarrow> Inl e
              | Inr running \<Rightarrow> Inr (NewCollector st, running)))"

definition buildDaemonSetCollector ::
  "('obj, 's, 'fam) familyTables \<Rightarrow> ('k, 'o, 'c) Builder \<Rightarrow>
   panic + (('obj, 's, 'fam) Collector \<times> 'k Reflector list)"
where
  "buildDaemonSetCollector t b = build_collector (daemonSetMetricFamilies t) ''DaemonSet'' b"

definition buildServiceCollector ::
  "('obj, 's, 'fam) familyTables \<Rightarrow> ('k, 'o, 'c) Builder \<Rightarrow>
   panic + (('obj, 's, 'fam) Collector \<times> 'k Reflector list)"
where
  "buildServiceCollector t b = build_collector (serviceMetricFamilies t) ''Service'' b"

definition buildPodCollector ::
  "('obj, 's, 'fam) familyTables \<Rightarrow> ('k, 'o, 'c) Builder \<Rightarrow>
   panic + (('obj, 's, 'fam) Collector \<times> 'k Reflector list)"
where
  "buildPodCollector t b = build_collector (podMetricFamilies t) ''Pod'' b"

definition availableCollectors ::
  "('obj, 's, 'fam) familyTables \<Rightarrow>
   string \<rightharpoonup> (('k, 'o, 'c) Builder \<Rightarrow> panic + (('obj, 's, 'fam) Collector \<times> 'k Reflector list))"
where
  "availableCollectors t =
     [''daemonsets'' \<mapsto> buildDaemonSetCollector t,
      ''pods'' \<mapsto> buildPodCollector t,
      ''services'' \<mapsto> buildServiceCollector t]"

subsection \<open>Build\<close>

fun Join :: "string list \<Rightarrow> string \<Rightarrow> string" where
  "Join [] sep = []"
| "Join [x] sep = x"
| "Join (x # y # ys) sep = x @ sep @ Join (y # ys) sep"

text \<open>
  What \<open>Build\<close> leaves behind when it returns: the collectors it returns, the names it
  logs, and the reflectors the constructors started.
\<close>

record ('obj, 's, 'fam, 'k) built =
  collectors :: "('obj, 's, 'fam) Collector list"
  activeCollectorNames :: "string list"
  logged :: string
  reflectors :: "'k Reflector list"

fun build_loop ::
  "('obj, 's, 'fam) familyTables \<Rightarrow> ('k, 'o, 'c) Builder \<Rightarrow> string list \<Rightarrow>
   ('obj, 's, 'fam, 'k) built \<Rightarrow> panic + ('obj, 's, 'fam, 'k) built"
where
  "build_loop t b [] acc = Inr acc"
| "build_loop t b (c # cs) acc =
     (case availableCollectors t c of
        None \<Rightarrow> build_loop t b cs acc
      | Some constructor \<Rightarrow>
          (case constructor b of
             Inl e \<Rightarrow> Inl e
           | Inr (collector, running) \<Rightarrow>
               build_loop t b cs
                 (acc\<lparr>activeCollectorNames := activeCollectorNames acc @ [c],
                      collectors := collectors acc @ [collector],
                      reflectors := reflectors acc @ running\<rparr>)))"

definition Build ::
  "('obj, 's, 'fam) familyTables \<Rightarrow> arrays \<Rightarrow> ('k, 'o, 'c) Builder \<Rightarrow>
   panic + ('obj, 's, 'fam, 'k) built"
where
  "Build t mem b =
     (case whiteBlackList b of
        None \<Rightarrow> Inl (PanicValue ''whiteBlackList should not be nil'')
      | Some l \<Rightarrow>
          (case build_loop t b (elems mem (enabledCollectors b))
                  \<lparr>collectors = [], activeCollectorNames = [], logged = [], reflectors = []\<rparr> of
             Inl e \<Rightarrow> Inl e
           | Inr acc \<Rightarrow>
               Inr (acc\<lparr>logged := ''Active collectors: '' @ Join (activeCollectorNames acc) '',''\<rparr>)))"

section \<open>internal/store/poddisruptionbudget.go\<close>

text \<open>
  \<open>wrapPodDisruptionBudgetFunc\<close> writes through pointers: a \<open>*metric.Metric\<close> is an
  address in a heap of metrics (or nil, \<open>None\<close>), and a family lists the addresses of its
  metrics. \<open>Value\<close> is a float64, kept as its 64 bits: nothing here computes with it.
  Of the object, the wrapper reads \<open>Namespace\<close> and \<open>Name\<close>; the latter is
  \<open>ObjectName\<close> here, \<open>Name\<close> being the field of the family generator.
\<close>

type_synonym addr = nat

record Metric =
  LabelKeys :: "string list"
  LabelValues :: "string list"
  Value :: "64 word"

type_synonym heap = "addr \<Rightarrow> Metric"

record Family =
  Metrics :: "addr option list"

record PodDisruptionBudget =
  Namespace :: string
  ObjectName :: string

text \<open>
  An \<open>interface{}\<close> holds a \<open>*v1beta1.PodDisruptionBudget\<close>, which may be a nil pointer,
  or a value of another dynamic type (a nil interface among them).
\<close>

datatype object =
    PodDisruptionBudgetPtr "PodDisruptionBudget option"
  | OtherObject

definition descPodDisruptionBudgetLabelsDefaultLabels :: "string list" where
  "descPodDisruptionBudgetLabelsDefaultLabels = [''namespace'', ''poddisruptionbudget'']"

text \<open>
  The loop over \<open>metricFamily.Metrics\<close>. Reading \<open>m.LabelKeys\<close> through a nil \<open>m\<close> panics.
  The first assignment is complete before the second one reads the object, so a nil
  object panics with the keys of \<open>m\<close> already replaced.
\<close>

fun label_loop :: "PodDisruptionBudget option \<Rightarrow> addr option list \<Rightarrow> (heap, unit) go" where
  "label_loop p [] h = (Inr (), h)"
| "label_loop p (None # ms) h = (Inl NilDereference, h)"
| "label_loop p (Some m # ms) h =
     (let h1 = h(m := (h m)\<lparr>LabelKeys :=
                 descPodDisruptionBudgetLabelsDefaultLabels @ LabelKeys (h m)\<rparr>)
      in case p of
           None \<Rightarrow> (Inl NilDereference, h1)
         | Some pdb \<Rightarrow>
             label_loop p ms
               (h1(m := (h1 m)\<lparr>LabelValues :=
                  [Namespace pdb, ObjectName pdb] @ LabelValues (h1 m)\<rparr>)))"

definition wrapPodDisruptionBudgetFunc ::
  "(PodDisruptionBudget option \<Rightarrow> (heap, Family option) go) \<Rightarrow>
   object \<Rightarrow> (heap, Family option) go"
where
  "wrapPodDisruptionBudgetFunc f obj h =
     (case obj of
        OtherObject \<Rightarrow> (Inl InterfaceConversion, h)
      | PodDisruptionBudgetPtr podDisruptionBudget \<Rightarrow>
          (case f podDisruptionBudget h of
             (Inl e, h') \<Rightarrow> (Inl e, h')
           | (Inr None, h') \<Rightarrow> (Inl NilDereference, h')
           | (Inr (Some metricFamily), h') \<Rightarrow>
               (case label_loop podDisruptionBudget (Metrics metricFamily) h' of
                  (Inl e, h'') \<Rightarrow> (Inl e, h'')
                | (Inr u, h'') \<Rightarrow> (Inr (Some metricFamily), h''))))"

section \<open>main.go\<close>

text \<open>
  \<open>collectorSet.Set\<close> parses the value of the flag \<open>--collectors\<close>. \<open>glog.Fatalf\<close> ends
  the process: \<open>Inl\<close> carries its message. The table \<open>availableCollectors\<close> of package
  main is looked up by name only, so it is the list of its keys.
\<close>

record GroupVersionResource =
  Group :: string
  Version :: string
  Resource :: string

type_synonym collectorSet = "string \<rightharpoonup> GroupVersionResource"

definition main_availableCollectors :: "string list" where
  "main_availableCollectors =
     [''cronjobs'', ''daemonsets'', ''deployments'', ''jobs'', ''limitranges'', ''nodes'',
      ''pods'', ''replicasets'', ''replicationcontrollers'', ''resourcequotas'', ''services'',
      ''statefulsets'', ''persistentvolumeclaims'', ''namespaces'']"

fun Split :: "string \<Rightarrow> char \<Rightarrow> string list" where
  "Split [] sep = [[]]"
| "Split (c # cs) sep =
     (if c = sep then [] # Split cs sep
      else (case Split cs sep of
              [] \<Rightarrow> [[c]]
            | w # ws \<Rightarrow> (c # w) # ws))"

fun Set_loop :: "string list \<Rightarrow> collectorSet \<Rightarrow> string + collectorSet" where
  "Set_loop [] s = Inr s"
| "Set_loop (col # cols) s =
     (if col \<notin> set main_availableCollectors
      then Inl (''Collector '' @ [CHR 0x22] @ col @ [CHR 0x22] @ '' does not exist'')
      else Set_loop cols (s(col \<mapsto> \<lparr>Group = [], Version = [], Resource = []\<rparr>)))"

definition collectorSet_Set :: "collectorSet \<Rightarrow> string \<Rightarrow> string + collectorSet" where
  "collectorSet_Set s v = Set_loop (Split v (CHR '','')) s"

section \<open>Notions the properties are stated with\<close>

text \<open>
  The memory in which the next function of a list is called, when the functions are
  called one after the other on \<open>obj\<close>.
\<close>

definition mem_after :: "'obj \<Rightarrow> ('obj \<Rightarrow> ('s, 'fam) go) list \<Rightarrow> 's \<Rightarrow> 's" where
  "mem_after obj funcs s = fold (\<lambda>f t. snd (f obj t)) funcs s"

text \<open>
  Calling the functions of a list in its order and returning their results in that
  order; the first panic ends the run.
\<close>

fun run_in_order :: "'obj \<Rightarrow> ('obj \<Rightarrow> ('s, 'fam) go) list \<Rightarrow> ('s, 'fam list) go" where
  "run_in_order obj [] s = (Inr [], s)"
| "run_in_order obj (f # funcs) s =
     (case f obj s of
        (Inl e, s') \<Rightarrow> (Inl e, s')
      | (Inr r, s') \<Rightarrow>
          (case run_in_order obj funcs s' of
             (Inl e, s'') \<Rightarrow> (Inl e, s'')
           | (Inr rs, s'') \<Rightarrow> (Inr (r # rs), s'')))"

text \<open>
  A function value is pure when its outcome on an object is the same in every memory
  and it returns the memory it was called in.
\<close>

definition pure_func :: "('obj \<Rightarrow> ('s, 'a) go) \<Rightarrow> bool" where
  "pure_func f = (\<forall>obj s t. fst (f obj s) = fst (f obj t) \<and> snd (f obj s) = s)"

text \<open>The header the store receives for one family.\<close>

definition header_of :: "('obj, 's, 'fam) FamilyGenerator \<Rightarrow> string" where
  "header_of f = Name f @ '' '' @ Help f"

text \<open>
  What the constructor registered for a name returns for a builder, if the name has a
  constructor.
\<close>

definition constructor_for ::
  "('obj, 's, 'fam) familyTables \<Rightarrow> ('k, 'o, 'c) Builder \<Rightarrow> string \<Rightarrow>
   (panic + (('obj, 's, 'fam) Collector \<times> 'k Reflector list)) option"
where
  "constructor_for t b c = map_option (\<lambda>constructor. constructor b) (availableCollectors t c)"

text \<open>
  The table that the constructor registered for a name filters, and the type its
  reflectors expect; \<open>None\<close> for a name without a constructor.
\<close>

definition registered ::
  "('obj, 's, 'fam) familyTables \<Rightarrow> string \<Rightarrow>
   (('obj, 's, 'fam) FamilyGenerator list \<times> string) option"
where
  "registered t c =
     (if c = ''daemonsets'' then Some (daemonSetMetricFamilies t, ''DaemonSet'')
      else if c = ''pods'' then Some (podMetricFamilies t, ''Pod'')
      else if c = ''services'' then Some (serviceMetricFamilies t, ''Service'')
      else None)"

text \<open>A metric with the default labels of an object put in front \<open>n\<close> times.\<close>

definition prefixed :: "PodDisruptionBudget \<Rightarrow> nat \<Rightarrow> Metric \<Rightarrow> Metric" where
  "prefixed pdb n m =
     m\<lparr>LabelKeys := concat (replicate n descPodDisruptionBudgetLabelsDefaultLabels) @ LabelKeys m,
       LabelValues := concat (replicate n [Namespace pdb, ObjectName pdb]) @ LabelValues m\<rparr>"

section \<open>Example inputs\<close>

definition no_metrics :: heap where
  "no_metrics = (\<lambda>a. \<lparr>LabelKeys = [], LabelValues = [], Value = 0\<rparr>)"

definition web_budget :: PodDisruptionBudget where
  "web_budget = \<lparr>Namespace = ''default'', ObjectName = ''web''\<rparr>"

text \<open>Inner functions: one metric, the same metric listed twice, and a nil family.\<close>

definition one_metric :: "PodDisruptionBudget option \<Rightarrow> (heap, Family option) go" where
  "one_metric p h =
     (Inr (Some \<lparr>Metrics = [Some 0]\<rparr>),
      h(0 := \<lparr>LabelKeys = [''k''], LabelValues = [''v''], Value = 1\<rparr>))"

definition same_metric_twice :: "PodDisruptionBudget option \<Rightarrow> (heap, Family option) go" where
  "same_metric_twice p h =
     (Inr (Some \<lparr>Metrics = [Some 0, Some 0]\<rparr>),
      h(0 := \<lparr>LabelKeys = [''k''], LabelValues = [''v''], Value = 1\<rparr>))"

definition nil_family :: "PodDisruptionBudget option \<Rightarrow> (heap, Family option) go" where
  "nil_family p h = (Inr None, h)"

text \<open>A generation function that looks at nothing and returns a family without metrics.\<close>

definition no_metric_lines :: "object \<Rightarrow> (heap, Family option) go" where
  "no_metric_lines obj h = (Inr (Some \<lparr>Metrics = []\<rparr>), h)"

definition family_info :: "(object, heap, Family option) FamilyGenerator" where
  "family_info =
     \<lparr>Name = ''kube_poddisruptionbudget_info'', Help = ''Information'', Type = Gauge,
      GenerateFunc = no_metric_lines\<rparr>"

definition family_created :: "(object, heap, Family option) FamilyGenerator" where
  "family_created =
     \<lparr>Name = ''kube_poddisruptionbudget_created'', Help = ''Unix creation timestamp'',
      Type = Gauge, GenerateFunc = wrapPodDisruptionBudgetFunc one_metric\<rparr>"

definition family_created_counter :: "(object, heap, Family option) FamilyGenerator" where
  "family_created_counter =
     \<lparr>Name = ''kube_poddisruptionbudget_created'', Help = ''Unix creation timestamp'',
      Type = Counter, GenerateFunc = wrapPodDisruptionBudgetFunc one_metric\<rparr>"

definition family_nil :: "(object, heap, Family option) FamilyGenerator" where
  "family_nil =
     \<lparr>Name = ''kube_poddisruptionbudget_nil'', Help = ''Nothing'', Type = Gauge,
      GenerateFunc = wrapPodDisruptionBudgetFunc nil_family\<rparr>"

text \<open>
  Policies: a deny list of one name, and the nil pointer of a policy type wrapped in the
  interface, whose methods panic.
\<close>

definition deny_created :: whiteBlackLister where
  "deny_created = allowDenyPolicy [] [''kube_poddisruptionbudget_created''] True"

definition nil_pointer_policy :: whiteBlackLister where
  "nil_pointer_policy =
     \<lparr>IsIncluded = (\<lambda>n. Inl NilDereference), IsExcluded = (\<lambda>n. Inl NilDereference)\<rparr>"

definition budget_tables :: "(object, heap, Family option) familyTables" where
  "budget_tables =
     \<lparr>daemonSetMetricFamilies = [family_created, family_info],
      podMetricFamilies = [family_info],
      serviceMetricFamilies = []\<rparr>"

text \<open>
  A memory with one array, the caller's slice over it, and builders: without a policy,
  with a policy, and with a policy but a nil context.
\<close>

definition caller_memory :: arrays where
  "caller_memory =
     \<lparr>cell = (\<lambda>a. if a = 0 then [''pods'', ''nodes'', ''daemonsets''] else []),
      next_free = 1\<rparr>"

definition caller_slice :: slice where
  "caller_slice = \<lparr>array = 0, offset = 0, len = 3\<rparr>"


definition deny_builder :: "(unit, unit, unit) Builder" where
  "deny_builder =
     WithNamespaces (WithWhiteBlackList (NewBuilder (Some ()) None) (Some deny_created))
       [''default'']"

definition nil_context_builder :: "(unit, unit, unit) Builder" where
  "nil_context_builder =
     WithNamespaces (WithWhiteBlackList (NewBuilder None None) (Some deny_created))
       [''default'']"

text \<open>The builders after the caller has enabled its three names.\<close>

definition configured :: "arrays \<times> (unit, unit, unit) Builder" where
  "configured = WithEnabledCollectors caller_memory deny_builder (Some caller_slice)"

definition configured_nil_context :: "arrays \<times> (unit, unit, unit) Builder" where
  "configured_nil_context =
     WithEnabledCollectors caller_memory nil_context_builder (Some caller_slice)"

section \<open>Auxiliary facts\<close>

lemma filter_loop_None:
  "filter_loop None families filtered = (if families = [] then Inr filtered else Inl NilDereference)"
  by (cases families) simp_all

lemma filter_loop_answers:
  "\<forall>f\<in>set families. \<not> isl (IsIncluded p (Name f)) \<Longrightarrow>
   filter_loop (Some p) families filtered =
     Inr (filtered @ filter (\<lambda>f. IsIncluded p (Name f) = Inr True) families)"
proof (induction families arbitrary: filtered)
  case Nil
  then show ?case by simp
next
  case (Cons f families)
  then obtain included where "IsIncluded p (Name f) = Inr included"
    by (cases "IsIncluded p (Name f)") auto
  with Cons show ?case by simp
qed

lemma filter_loop_panics:
  "\<exists>f\<in>set families. isl (IsIncluded p (Name f)) \<Longrightarrow>
   isl (filter_loop (Some p) families filtered)"
proof (induction families arbitrary: filtered)
  case Nil
  then show ?case by simp
next
  case (Cons f families)
  show ?case
  proof (cases "IsIncluded p (Name f)")
    case (Inl e)
    then show ?thesis by simp
  next
    case (Inr included)
    with Cons.prems have "\<exists>g\<in>set families. isl (IsIncluded p (Name g))" by auto
    with Cons.IH Inr show ?thesis by simp
  qed
qed

lemma filterMetricFamilies_answers:
  "\<forall>f\<in>set families. \<not> isl (IsIncluded p (Name f)) \<Longrightarrow>
   filterMetricFamilies (Some p) families =
     Inr (filter (\<lambda>f. IsIncluded p (Name f) = Inr True) families)"
  by (simp add: filterMetricFamilies_def filter_loop_answers)

lemma filterMetricFamilies_isl_iff:
  "isl (filterMetricFamilies (Some p) families) \<longleftrightarrow>
   (\<exists>f\<in>set families. isl (IsIncluded p (Name f)))"
proof
  assume panics: "isl (filterMetricFamilies (Some p) families)"
  show "\<exists>f\<in>set families. isl (IsIncluded p (Name f))"
  proof (rule ccontr)
    assume "\<not> (\<exists>f\<in>set families. isl (IsIncluded p (Name f)))"
    then have "\<forall>f\<in>set families. \<not> isl (IsIncluded p (Name f))" by simp
    from filterMetricFamilies_answers [OF this] panics show False by simp
  qed
next
  assume "\<exists>f\<in>set families. isl (IsIncluded p (Name f))"
  then show "isl (filterMetricFamilies (Some p) families)"
    by (simp add: filterMetricFamilies_def filter_loop_panics)
qed

lemma filterMetricFamilies_Inr:
  "filterMetricFamilies (Some p) families = Inr filtered \<Longrightarrow>
   filtered = filter (\<lambda>f. IsIncluded p (Name f) = Inr True) families"
proof -
  assume r: "filterMetricFamilies (Some p) families = Inr filtered"
  then have "\<not> isl (filterMetricFamilies (Some p) families)" by simp
  then have "\<forall>f\<in>set families. \<not> isl (IsIncluded p (Name f))"
    by (simp add: filterMetricFamilies_isl_iff)
  from filterMetricFamilies_answers [OF this] r show ?thesis by simp
qed

lemma allowDenyPolicy_answers: "\<not> isl (IsIncluded (allowDenyPolicy allow deny admit) n)"
  by (simp add: allowDenyPolicy_def)

lemma reflector_loop_Some:
  "reflector_loop (Some d) client expected nss running =
     Inr (running @ map (\<lambda>ns. \<lparr>expectedType = expected, listWatchClient = client,
                               listWatchNamespace = ns\<rparr>) nss)"
  by (induction nss arbitrary: running) simp_all

lemma reflector_loop_None:
  "reflector_loop None client expected nss running =
     (if nss = [] then Inr running else Inl NilDereference)"
  by (cases nss) simp_all

lemma reflectorPerNamespace_isl_iff:
  "isl (reflectorPerNamespace cx client expected nss) \<longleftrightarrow>
   cx = None \<and> nss \<noteq> []"
  by (cases cx)
     (simp_all add: reflectorPerNamespace_def reflector_loop_Some reflector_loop_None)

lemma reflectorPerNamespace_panic:
  "reflectorPerNamespace cx client expected nss = Inl e \<Longrightarrow> e = NilDereference"
  by (cases cx)
     (simp_all add: reflectorPerNamespace_def reflector_loop_Some reflector_loop_None
      split: if_splits)

lemma build_collector_isl_iff:
  "whiteBlackList b = Some p \<Longrightarrow>
   isl (build_collector families expected b) \<longleftrightarrow>
   (\<exists>f\<in>set families. isl (IsIncluded p (Name f))) \<or> (ctx b = None \<and> namespaces b \<noteq> [])"
  using filterMetricFamilies_isl_iff [of p families]
        reflectorPerNamespace_isl_iff [of "ctx b" "kubeClient b" expected "namespaces b"]
  by (auto simp: build_collector_def Let_def split: sum.splits)

lemma build_collector_Inr:
  "whiteBlackList b = Some p \<Longrightarrow> build_collector families expected b = Inr (collector, running) \<Longrightarrow>
   collector =
     NewCollector
       (NewMetricsStore
          (extractHelpText (filter (\<lambda>f. IsIncluded p (Name f) = Inr True) families))
          (composeMetricGenFuncs (filter (\<lambda>f. IsIncluded p (Name f) = Inr True) families)))"
  by (auto simp: build_collector_def Let_def split: sum.splits dest: filterMetricFamilies_Inr)

lemma build_collector_enabledCollectors:
  "build_collector families expected (b\<lparr>enabledCollectors := sl\<rparr>) =
   build_collector families expected b"
  by (simp add: build_collector_def Let_def split: sum.splits)

lemma constructor_for_registered:
  "constructor_for t b c =
     map_option (\<lambda>(families, expected). build_collector families expected b) (registered t c)"
  by (simp add: constructor_for_def availableCollectors_def registered_def
      buildDaemonSetCollector_def buildPodCollector_def buildServiceCollector_def)

lemma constructor_for_None_iff:
  "constructor_for t b c = None \<longleftrightarrow> c \<notin> {''daemonsets'', ''pods'', ''services''}"
  by (auto simp: constructor_for_def availableCollectors_def)

lemma constructor_for_enabledCollectors:
  "constructor_for t (b\<lparr>enabledCollectors := sl\<rparr>) c = constructor_for t b c"
  by (simp add: constructor_for_registered build_collector_enabledCollectors)

lemma build_loop_step:
  "build_loop t b (c # cs) acc =
     (case constructor_for t b c of
        None \<Rightarrow> build_loop t b cs acc
      | Some (Inl e) \<Rightarrow> Inl e
      | Some (Inr (collector, running)) \<Rightarrow>
          build_loop t b cs
            (acc\<lparr>activeCollectorNames := activeCollectorNames acc @ [c],
                 collectors := collectors acc @ [collector],
                 reflectors := reflectors acc @ running\<rparr>))"
  by (simp add: constructor_for_def split: option.splits sum.splits)

lemma build_loop_skips:
  "build_loop t b cs acc =
   build_loop t b (filter (\<lambda>c. constructor_for t b c \<noteq> None) cs) acc"
proof (induction cs arbitrary: acc)
  case Nil
  show ?case by simp
next
  case (Cons c cs)
  show ?case
  proof (cases "constructor_for t b c")
    case None
    with Cons.IH show ?thesis
      by (simp add: build_loop_step del: build_loop.simps(2))
  next
    case (Some outcome)
    with Cons.IH show ?thesis
      by (simp add: build_loop_step del: build_loop.simps(2) split: sum.splits)
  qed
qed

lemma build_loop_isl_iff:
  "isl (build_loop t b cs acc) \<longleftrightarrow>
   (\<exists>c\<in>set cs. \<exists>e. constructor_for t b c = Some (Inl e))"
proof (induction cs arbitrary: acc)
  case Nil
  show ?case by simp
next
  case (Cons c cs)
  show ?case
  proof (cases "constructor_for t b c")
    case None
    with Cons.IH show ?thesis
      by (simp add: build_loop_step del: build_loop.simps(2))
  next
    case (Some outcome)
    show ?thesis
    proof (cases outcome)
      case (Inl e)
      with Some show ?thesis
        by (simp add: build_loop_step del: build_loop.simps(2))
    next
      case (Inr pair)
      with Some Cons.IH show ?thesis
        by (cases pair) (simp add: build_loop_step del: build_loop.simps(2))
    qed
  qed
qed

lemma build_loop_Inr:
  assumes "list_all2 (\<lambda>c collector. \<exists>running. constructor_for t b c = Some (Inr (collector, running)))
             (activeCollectorNames acc) (collectors acc)"
    and "build_loop t b cs acc = Inr r"
  shows "activeCollectorNames r =
           activeCollectorNames acc @ filter (\<lambda>c. constructor_for t b c \<noteq> None) cs \<and>
         list_all2 (\<lambda>c collector. \<exists>running. constructor_for t b c = Some (Inr (collector, running)))
           (activeCollectorNames r) (collectors r) \<and>
         logged r = logged acc"
  using assms
proof (induction cs arbitrary: acc)
  case Nil
  then show ?case by simp
next
  case (Cons c cs)
  show ?case
  proof (cases "constructor_for t b c")
    case None
    with Cons.prems(2) have "build_loop t b cs acc = Inr r"
      by (simp add: build_loop_step del: build_loop.simps(2))
    from Cons.IH [OF Cons.prems(1) this] None show ?thesis by auto
  next
    case (Some outcome)
    show ?thesis
    proof (cases outcome)
      case (Inl e)
      with Some Cons.prems(2) show ?thesis
        by (simp add: build_loop_step del: build_loop.simps(2))
    next
      case (Inr pair)
      obtain collector running where pair: "pair = (collector, running)" by (cases pair)
      let ?acc = "acc\<lparr>activeCollectorNames := activeCollectorNames acc @ [c],
                       collectors := collectors acc @ [collector],
                       reflectors := reflectors acc @ running\<rparr>"
      from Some Inr pair Cons.prems(2) have run: "build_loop t b cs ?acc = Inr r"
        by (simp add: build_loop_step del: build_loop.simps(2))
      have "list_all2 (\<lambda>c collector. \<exists>running. constructor_for t b c = Some (Inr (collector, running)))
              (activeCollectorNames ?acc) (collectors ?acc)"
        using Cons.prems(1) Some Inr pair by (auto intro!: list_all2_appendI)
      from Cons.IH [OF this run] Some show ?thesis by auto
    qed
  qed
qed


lemma Build_isl_iff:
  "isl (Build t mem b) \<longleftrightarrow>
   whiteBlackList b = None \<or>
   (\<exists>c\<in>set (elems mem (enabledCollectors b)). \<exists>e. constructor_for t b c = Some (Inl e))"
proof (cases "whiteBlackList b")
  case None
  then show ?thesis by (simp add: Build_def)
next
  case (Some p)
  let ?acc = "\<lparr>collectors = [], activeCollectorNames = [], logged = [], reflectors = []\<rparr>"
  from build_loop_isl_iff [of t b "elems mem (enabledCollectors b)" ?acc] Some
  show ?thesis by (auto simp: Build_def split: sum.splits)
qed

lemma Build_Inr:
  assumes "Build t mem b = Inr r"
  shows "activeCollectorNames r =
           filter (\<lambda>c. constructor_for t b c \<noteq> None) (elems mem (enabledCollectors b)) \<and>
         list_all2 (\<lambda>c collector. \<exists>running. constructor_for t b c = Some (Inr (collector, running)))
           (activeCollectorNames r) (collectors r) \<and>
         logged r = ''Active collectors: '' @ Join (activeCollectorNames r) '',''"
proof -
  let ?acc = "\<lparr>collectors = [], activeCollectorNames = [], logged = [], reflectors = []\<rparr>"
  from assms obtain acc where
    acc: "build_loop t b (elems mem (enabledCollectors b)) ?acc = Inr acc"
    and r: "r = acc\<lparr>logged := ''Active collectors: '' @ Join (activeCollectorNames acc) '',''\<rparr>"
    by (auto simp: Build_def split: option.splits sum.splits)
  have "list_all2 (\<lambda>c collector. \<exists>running. constructor_for t b c = Some (Inr (collector, running)))
          (activeCollectorNames ?acc) (collectors ?acc)"
    by simp
  from build_loop_Inr [OF this acc] r show ?thesis by auto
qed

lemma Build_skips:
  assumes "elems mem' sl = filter (\<lambda>c. constructor_for t b c \<noteq> None) (elems mem (enabledCollectors b))"
  shows "Build t mem' (b\<lparr>enabledCollectors := sl\<rparr>) = Build t mem b"
proof -
  let ?acc = "\<lparr>collectors = [], activeCollectorNames = [], logged = [], reflectors = []\<rparr>"
  have same: "build_loop t (b\<lparr>enabledCollectors := sl\<rparr>) cs acc = build_loop t b cs acc"
    for cs and acc :: "('a, 'b, 'c, 'd) built"
    by (induction cs arbitrary: acc)
       (simp_all add: build_loop_step constructor_for_enabledCollectors
          del: build_loop.simps(2) split: option.splits sum.splits)
  have "build_loop t b (elems mem' sl) ?acc = build_loop t b (elems mem (enabledCollectors b)) ?acc"
    unfolding assms by (rule build_loop_skips [symmetric])
  with same show ?thesis by (simp add: Build_def split: option.splits)
qed

lemma constructor_for_panics_iff:
  "whiteBlackList b = Some p \<Longrightarrow>
   (\<exists>e. constructor_for t b c = Some (Inl e)) \<longleftrightarrow>
   (\<exists>families expected. registered t c = Some (families, expected) \<and>
      ((\<exists>f\<in>set families. isl (IsIncluded p (Name f))) \<or> (ctx b = None \<and> namespaces b \<noteq> [])))"
proof -
  assume p: "whiteBlackList b = Some p"
  show ?thesis
  proof (cases "registered t c")
    case None
    then show ?thesis by (simp add: constructor_for_registered)
  next
    case (Some pair)
    obtain families expected where pair: "pair = (families, expected)" by (cases pair)
    from build_collector_isl_iff [OF p, of families expected] Some pair show ?thesis
      by (auto simp: constructor_for_registered isl_def)
  qed
qed

lemma help_loop_eq:
  "i + length families \<le> length hs \<Longrightarrow>
   help_loop i families hs =
     take i hs @ map header_of families @ drop (i + length families) hs"
proof (induction families arbitrary: i hs)
  case Nil
  then show ?case by simp
next
  case (Cons f families)
  then show ?case
    by (simp add: take_Suc_conv_app_nth upd_conv_take_nth_drop add.commute header_of_def)
qed

lemma extractHelpText_map: "extractHelpText families = map header_of families"
  by (simp add: extractHelpText_def help_loop_eq)

lemma collect_funcs_eq: "collect_funcs families funcs = funcs @ map GenerateFunc families"
  by (induction families arbitrary: funcs) simp_all

lemma call_funcs_run:
  "i + length funcs \<le> length families \<Longrightarrow>
   call_funcs obj i funcs families s =
     (case run_in_order obj funcs s of
        (Inl e, s') \<Rightarrow> (Inl e, s')
      | (Inr rs, s') \<Rightarrow>
          (Inr (take i families @ map Some rs @ drop (i + length rs) families), s'))"
proof (induction funcs arbitrary: i families s)
  case Nil
  then show ?case by simp
next
  case (Cons f funcs)
  show ?case
  proof (cases "f obj s")
    case (Pair out s')
    show ?thesis
    proof (cases out)
      case (Inl e)
      with Pair show ?thesis by simp
    next
      case (Inr r)
      have "Suc i + length funcs \<le> length (families[i := Some r])"
        using Cons.prems by simp
      from Cons.IH [OF this] Pair Inr Cons.prems show ?thesis
        by (auto split: prod.splits sum.splits
            simp: take_Suc_conv_app_nth upd_conv_take_nth_drop add.commute)
    qed
  qed
qed

lemma run_in_order_length:
  "run_in_order obj funcs s = (Inr rs, s') \<Longrightarrow> length rs = length funcs"
  by (induction funcs arbitrary: s rs) (auto split: prod.splits sum.splits)

lemma composeMetricGenFuncs_run:
  "composeMetricGenFuncs families obj s =
     (case run_in_order obj (map GenerateFunc families) s of
        (Inl e, s') \<Rightarrow> (Inl e, s')
      | (Inr rs, s') \<Rightarrow> (Inr (map Some rs), s'))"
  by (auto simp: composeMetricGenFuncs_def collect_funcs_eq call_funcs_run
      split: prod.splits sum.splits dest: run_in_order_length)

lemma mem_after_Cons: "mem_after obj (f # funcs) s = mem_after obj funcs (snd (f obj s))"
  by (simp add: mem_after_def)

lemma run_in_order_Inr:
  "\<forall>i<length funcs. \<exists>r t. (funcs ! i) obj (mem_after obj (take i funcs) s) = (Inr r, t) \<Longrightarrow>
   \<exists>rs. run_in_order obj funcs s = (Inr rs, mem_after obj funcs s) \<and>
        length rs = length funcs \<and>
        (\<forall>i<length funcs.
           fst ((funcs ! i) obj (mem_after obj (take i funcs) s)) = Inr (rs ! i))"
proof (induction funcs arbitrary: s)
  case Nil
  then show ?case by (simp add: mem_after_def)
next
  case (Cons f funcs)
  from Cons.prems [rule_format, of 0] obtain r t where f: "f obj s = (Inr r, t)"
    by (auto simp: mem_after_def)
  have "\<forall>i<length funcs. \<exists>r' t'.
          (funcs ! i) obj (mem_after obj (take i funcs) t) = (Inr r', t')"
  proof (intro allI impI)
    fix i assume "i < length funcs"
    with Cons.prems [rule_format, of "Suc i"] f
    show "\<exists>r' t'. (funcs ! i) obj (mem_after obj (take i funcs) t) = (Inr r', t')"
      by (simp add: mem_after_Cons)
  qed
  from Cons.IH [OF this] obtain rs where
    rs: "run_in_order obj funcs t = (Inr rs, mem_after obj funcs t)"
        "length rs = length funcs"
        "\<forall>i<length funcs. fst ((funcs ! i) obj (mem_after obj (take i funcs) t)) = Inr (rs ! i)"
    by blast
  have "\<forall>i<length (f # funcs).
          fst (((f # funcs) ! i) obj (mem_after obj (take i (f # funcs)) s)) = Inr ((r # rs) ! i)"
  proof (intro allI impI)
    fix i assume i: "i < length (f # funcs)"
    show "fst (((f # funcs) ! i) obj (mem_after obj (take i (f # funcs)) s)) = Inr ((r # rs) ! i)"
    proof (cases i)
      case 0
      with f show ?thesis by (simp add: mem_after_def)
    next
      case (Suc j)
      with i rs(3) f show ?thesis by (simp add: mem_after_Cons)
    qed
  qed
  with f rs(1,2) show ?case
    by (intro exI [of _ "r # rs"]) (simp add: mem_after_Cons)
qed

lemma run_in_order_Inl:
  "k < length funcs \<Longrightarrow>
   (funcs ! k) obj (mem_after obj (take k funcs) s) = (Inl e, t) \<Longrightarrow>
   \<forall>i<k. \<exists>r u. (funcs ! i) obj (mem_after obj (take i funcs) s) = (Inr r, u) \<Longrightarrow>
   run_in_order obj funcs s = (Inl e, t)"
proof (induction funcs arbitrary: k s)
  case Nil
  then show ?case by simp
next
  case (Cons f funcs)
  show ?case
  proof (cases k)
    case 0
    with Cons.prems show ?thesis by (simp add: mem_after_def)
  next
    case (Suc j)
    with Cons.prems(3) [rule_format, of 0] obtain r u where f: "f obj s = (Inr r, u)"
      by (auto simp: mem_after_def)
    have j: "j < length funcs" using Cons.prems(1) Suc by simp
    have at_j: "(funcs ! j) obj (mem_after obj (take j funcs) u) = (Inl e, t)"
      using Cons.prems(2) Suc f by (simp add: mem_after_Cons)
    have before: "\<forall>i<j. \<exists>r' u'. (funcs ! i) obj (mem_after obj (take i funcs) u) = (Inr r', u')"
    proof (intro allI impI)
      fix i assume "i < j"
      with Cons.prems(3) [rule_format, of "Suc i"] Suc f
      show "\<exists>r' u'. (funcs ! i) obj (mem_after obj (take i funcs) u) = (Inr r', u')"
        by (simp add: mem_after_Cons)
    qed
    from Cons.IH [OF j at_j before] f show ?thesis by simp
  qed
qed

lemma run_in_order_pure:
  "\<forall>f\<in>set funcs. pure_func f \<Longrightarrow>
   fst (run_in_order obj funcs s) = fst (run_in_order obj funcs t) \<and>
   snd (run_in_order obj funcs s) = s"
proof (induction funcs arbitrary: s t)
  case Nil
  then show ?case by simp
next
  case (Cons f funcs)
  then have pf: "pure_func f" and rest: "\<forall>g\<in>set funcs. pure_func g" by simp_all
  from pf have fs: "fst (f obj s) = fst (f obj t)" "snd (f obj s) = s" "snd (f obj t) = t"
    by (simp_all add: pure_func_def)
  show ?case
  proof (cases "fst (f obj s)")
    case (Inl e)
    with fs show ?thesis by (auto split: sum.splits prod.splits)
  next
    case (Inr r)
    from Cons.IH [OF rest, of s t] Cons.IH [OF rest, of t s] Inr fs show ?thesis
      by (auto split: sum.splits prod.splits)
  qed
qed

lemma concat_replicate_comm: "concat (replicate n xs) @ xs = xs @ concat (replicate n xs)"
  by (induction n) simp_all

lemma prefixed_0: "prefixed pdb 0 m = m"
  by (simp add: prefixed_def)

lemma prefixed_step:
  "prefixed pdb n
     (m\<lparr>LabelKeys := descPodDisruptionBudgetLabelsDefaultLabels @ LabelKeys m,
        LabelValues := Namespace pdb # ObjectName pdb # LabelValues m\<rparr>) =
   prefixed pdb (Suc n) m"
  using concat_replicate_comm [of n descPodDisruptionBudgetLabelsDefaultLabels]
        concat_replicate_comm [of n "[Namespace pdb, ObjectName pdb]"]
  by (simp add: prefixed_def)

lemma label_loop_Some:
  "label_loop (Some pdb) (map Some ms) h =
     (Inr (), (\<lambda>a. prefixed pdb (count_list ms a) (h a)))"
proof (induction ms arbitrary: h)
  case Nil
  then show ?case by (simp add: prefixed_0)
next
  case (Cons m ms)
  let ?h2 = "h(m := (h m)\<lparr>LabelKeys := descPodDisruptionBudgetLabelsDefaultLabels @ LabelKeys (h m),
                          LabelValues := [Namespace pdb, ObjectName pdb] @ LabelValues (h m)\<rparr>)"
  have step: "label_loop (Some pdb) (map Some (m # ms)) h = label_loop (Some pdb) (map Some ms) ?h2"
    by (simp add: Let_def)
  have run: "label_loop (Some pdb) (map Some ms) ?h2 =
               (Inr (), (\<lambda>a. prefixed pdb (count_list ms a) (?h2 a)))"
    by (rule Cons.IH)
  have heap: "(\<lambda>a. prefixed pdb (count_list ms a) (?h2 a)) =
              (\<lambda>a. prefixed pdb (count_list (m # ms) a) (h a))"
    by (rule ext) (simp add: prefixed_step)
  show ?case unfolding step run heap by (rule refl)
qed

lemma wrap_returns:
  assumes "f (Some pdb) h = (Inr (Some fam), h')" and "Metrics fam = map Some ms"
  shows "wrapPodDisruptionBudgetFunc f (PodDisruptionBudgetPtr (Some pdb)) h =
           (Inr (Some fam), (\<lambda>a. prefixed pdb (count_list ms a) (h' a)))"
  using assms by (simp add: wrapPodDisruptionBudgetFunc_def label_loop_Some)

lemma append_loop_eq:
  "length (cell mem (array copy)) = offset copy + len copy \<Longrightarrow>
   append_loop xs mem copy =
     (write_array mem (array copy) (cell mem (array copy) @ xs),
      copy\<lparr>len := len copy + length xs\<rparr>)"
proof (induction xs arbitrary: mem copy)
  case Nil
  then show ?case by (simp add: write_array_def)
next
  case (Cons x xs)
  let ?mem = "write_array mem (array copy)
                (take (offset copy + len copy) (cell mem (array copy)) @ [x])"
  let ?copy = "copy\<lparr>len := Suc (len copy)\<rparr>"
  have "length (cell ?mem (array ?copy)) = offset ?copy + len ?copy"
    using Cons.prems by (simp add: write_array_def)
  from Cons.IH [OF this] Cons.prems show ?case
    by (simp add: write_array_def)
qed

lemma WithEnabledCollectors_eq:
  assumes "\<forall>sl. c = Some sl \<longrightarrow> array sl < next_free mem"
  shows "WithEnabledCollectors mem b c =
           ((write_array mem (next_free mem) (sort (elems mem c)))\<lparr>next_free := Suc (next_free mem)\<rparr>,
            b\<lparr>enabledCollectors :=
                Some \<lparr>array = next_free mem, offset = 0, len = length (elems mem c)\<rparr>\<rparr>)"
proof -
  let ?mem0 = "(write_array mem (next_free mem) [])\<lparr>next_free := Suc (next_free mem)\<rparr>"
  let ?copy0 = "\<lparr>array = next_free mem, offset = 0, len = 0\<rparr>"
  have same: "elems ?mem0 c = elems mem c"
    using assms by (cases c) (auto simp: elems_def write_array_def)
  have "length (cell ?mem0 (array ?copy0)) = offset ?copy0 + len ?copy0"
    by (simp add: write_array_def)
  from append_loop_eq [OF this, of "elems mem c"] same show ?thesis
    by (simp add: WithEnabledCollectors_def Let_def sort_Strings_def write_array_def)
qed

lemma count_list_distinct: "distinct ms \<Longrightarrow> m \<in> set ms \<Longrightarrow> count_list ms m = 1"
  by (induction ms) auto

lemma elems_after_WithEnabledCollectors:
  assumes "\<forall>sl. c = Some sl \<longrightarrow> array sl < next_free mem"
    and "WithEnabledCollectors mem b c = (mem', b')"
  shows "elems mem' (enabledCollectors b') = sort (elems mem c)"
    and "a < next_free mem \<Longrightarrow>
         elems (write_array mem' a xs) (enabledCollectors b') = sort (elems mem c)"
    and "whiteBlackList b' = whiteBlackList b"
    and "elems mem' c = elems mem c"
  using assms(2) assms(1) unfolding WithEnabledCollectors_eq [OF assms(1)]
  by (auto simp: elems_def write_array_def split: option.splits)

lemma pure_no_metric_lines: "pure_func no_metric_lines"
  by (simp add: pure_func_def no_metric_lines_def)

text \<open>
  The flag parser of main.go ends the process on a name that its table does not have.
\<close>

lemma Set_loop_unknown:
  "col \<in> set cols \<Longrightarrow> col \<notin> set main_availableCollectors \<Longrightarrow> isl (Set_loop cols s)"
  by (induction cols arbitrary: s) auto

lemma collectorSet_Set_unknown:
  "col \<in> set (Split v (CHR '','')) \<Longrightarrow> col \<notin> set main_availableCollectors \<Longrightarrow>
   isl (collectorSet_Set s v)"
  by (simp add: collectorSet_Set_def Set_loop_unknown)

lemma collectorSet_Set_example:
  "collectorSet_Set Map.empty ''pods,widgets'' =
     Inl (''Collector '' @ [CHR 0x22] @ ''widgets'' @ [CHR 0x22] @ '' does not exist'')"
  by (simp add: collectorSet_Set_def main_availableCollectors_def)

lemma Build_returns:
  assumes "whiteBlackList b = Some p"
    and "\<forall>n. \<not> isl (IsIncluded p n)"
    and "ctx b \<noteq> None \<or> namespaces b = []"
  shows "\<exists>r. Build t mem b = Inr r"
proof -
  have "\<not> (\<exists>e. constructor_for t b c = Some (Inl e))" for c
    using assms(2,3) by (auto simp: constructor_for_panics_iff [OF assms(1)])
  with assms(1) have "\<not> isl (Build t mem b)"
    by (simp add: Build_isl_iff)
  then show ?thesis by (cases "Build t mem b") auto
qed

lemma builder_fields_after_WithEnabledCollectors:
  "WithEnabledCollectors mem b c = (mem', b') \<Longrightarrow>
   whiteBlackList b' = whiteBlackList b \<and> ctx b' = ctx b \<and> namespaces b' = namespaces b \<and>
   kubeClient b' = kubeClient b"
  by (auto simp: WithEnabledCollectors_def Let_def split: prod.splits)

lemma configured_eq:
  "configured =
     ((write_array caller_memory 1 [''daemonsets'', ''nodes'', ''pods''])\<lparr>next_free := 2\<rparr>,
      deny_builder\<lparr>enabledCollectors := Some \<lparr>array = 1, offset = 0, len = 3\<rparr>\<rparr>)"
  and configured_nil_context_eq:
  "configured_nil_context =
     ((write_array caller_memory 1 [''daemonsets'', ''nodes'', ''pods''])\<lparr>next_free := 2\<rparr>,
      nil_context_builder\<lparr>enabledCollectors := Some \<lparr>array = 1, offset = 0, len = 3\<rparr>\<rparr>)"
proof -
  have wf: "\<forall>sl. Some caller_slice = Some sl \<longrightarrow> array sl < next_free caller_memory"
    by (simp add: caller_slice_def caller_memory_def)
  have s: "sort (elems caller_memory (Some caller_slice)) = [''daemonsets'', ''nodes'', ''pods'']"
    by (simp add: elems_def caller_memory_def caller_slice_def less_eq_char_def less_char_def)
  have n: "next_free caller_memory = 1" "length (elems caller_memory (Some caller_slice)) = 3"
    by (simp_all add: elems_def caller_memory_def caller_slice_def)
  show "configured =
     ((write_array caller_memory 1 [''daemonsets'', ''nodes'', ''pods''])\<lparr>next_free := 2\<rparr>,
      deny_builder\<lparr>enabledCollectors := Some \<lparr>array = 1, offset = 0, len = 3\<rparr>\<rparr>)"
    unfolding configured_def WithEnabledCollectors_eq [OF wf] s n by simp
  show "configured_nil_context =
     ((write_array caller_memory 1 [''daemonsets'', ''nodes'', ''pods''])\<lparr>next_free := 2\<rparr>,
      nil_context_builder\<lparr>enabledCollectors := Some \<lparr>array = 1, offset = 0, len = 3\<rparr>\<rparr>)"
    unfolding configured_nil_context_def WithEnabledCollectors_eq [OF wf] s n by simp
qed

lemma configured_facts:
  "elems (fst configured) (enabledCollectors (snd configured)) = [''daemonsets'', ''nodes'', ''pods'']"
  "whiteBlackList (snd configured) = Some deny_created"
  "ctx (snd configured) = Some ()"
  "namespaces (snd configured) = [''default'']"
  by (simp_all add: configured_eq elems_def write_array_def deny_builder_def WithNamespaces_def
      WithWhiteBlackList_def NewBuilder_def)


lemma deny_created_answers: "\<not> isl (IsIncluded deny_created n)"
  by (simp add: deny_created_def allowDenyPolicy_answers)

section \<open>The claims\<close>

subsection \<open>C1: the filter and the deny list\<close>

text \<open>
  Claim C1: for every policy built from an allow list and a deny list (and either answer
  for a name in neither list) and every list of generators, \<open>filterMetricFamilies\<close>
  returns; no family whose name is in the deny list is in the filtered list, whether or
  not the allow list has the name too; every family it keeps is one that the policy
  does not exclude; and the filtered list is the list whose generation functions are
  composed for the store, so the composed output has no block of an excluded family.
\<close>

theorem filterMetricFamilies_exclusion_wins:
  "\<exists>filtered.
     filterMetricFamilies (Some (allowDenyPolicy allow deny admit)) families = Inr filtered \<and>
     (\<forall>f\<in>set families. Name f \<in> set deny \<longrightarrow> f \<notin> set filtered) \<and>
     (\<forall>f\<in>set filtered.
        f \<in> set families \<and> IsExcluded (allowDenyPolicy allow deny admit) (Name f) = Inr False) \<and>
     (\<forall>b expected collector running.
        whiteBlackList b = Some (allowDenyPolicy allow deny admit) \<longrightarrow>
        build_collector families expected b = Inr (collector, running) \<longrightarrow>
        generateMetricsFunc (store collector) = composeMetricGenFuncs filtered)"
proof -
  let ?p = "allowDenyPolicy allow deny admit"
  let ?filtered = "filter (\<lambda>f. IsIncluded ?p (Name f) = Inr True) families"
  have ret: "filterMetricFamilies (Some ?p) families = Inr ?filtered"
    by (rule filterMetricFamilies_answers) (simp add: allowDenyPolicy_answers)
  have absent: "\<forall>f\<in>set families. Name f \<in> set deny \<longrightarrow> f \<notin> set ?filtered"
    by (simp add: allowDenyPolicy_def)
  have kept: "\<forall>f\<in>set ?filtered. f \<in> set families \<and> IsExcluded ?p (Name f) = Inr False"
    by (auto simp: allowDenyPolicy_def split: if_splits)
  have composed: "\<forall>b expected collector running.
        whiteBlackList b = Some ?p \<longrightarrow>
        build_collector families expected b = Inr (collector, running) \<longrightarrow>
        generateMetricsFunc (store collector) = composeMetricGenFuncs ?filtered"
    by (auto dest!: build_collector_Inr simp: NewCollector_def NewMetricsStore_def)
  from ret absent kept composed show ?thesis by blast
qed

theorem filterMetricFamilies_exclusion_wins_witness:
  "Name family_created \<in> set [''kube_poddisruptionbudget_created''] \<and>
   Name family_created \<in>
     set [''kube_poddisruptionbudget_created'', ''kube_poddisruptionbudget_info''] \<and>
   \<not> isl (filterMetricFamilies
            (Some (allowDenyPolicy
               [''kube_poddisruptionbudget_created'', ''kube_poddisruptionbudget_info'']
               [''kube_poddisruptionbudget_created''] False))
            [family_created, family_info]) \<and>
   family_created \<notin>
     set (projr (filterMetricFamilies
            (Some (allowDenyPolicy
               [''kube_poddisruptionbudget_created'', ''kube_poddisruptionbudget_info'']
               [''kube_poddisruptionbudget_created''] False))
            [family_created, family_info])) \<and>
   filterMetricFamilies
     (Some (allowDenyPolicy
        [''kube_poddisruptionbudget_created'', ''kube_poddisruptionbudget_info'']
        [''kube_poddisruptionbudget_created''] False))
     [family_created, family_info] = Inr [family_info]"
proof -
  let ?allow = "[''kube_poddisruptionbudget_created'', ''kube_poddisruptionbudget_info'']"
  let ?deny = "[''kube_poddisruptionbudget_created'']"
  let ?fs = "[family_created, family_info]"
  have named: "Name family_created \<in> set ?deny" "Name family_created \<in> set ?allow"
    by (simp_all add: family_created_def)
  from filterMetricFamilies_exclusion_wins [of ?allow ?deny False ?fs]
  obtain filtered where
    ret: "filterMetricFamilies (Some (allowDenyPolicy ?allow ?deny False)) ?fs = Inr filtered"
    and absent: "\<forall>f\<in>set ?fs. Name f \<in> set ?deny \<longrightarrow> f \<notin> set filtered"
    by blast
  from absent named(1) have gone: "family_created \<notin> set filtered" by simp
  have "filterMetricFamilies (Some (allowDenyPolicy ?allow ?deny False)) ?fs = Inr [family_info]"
    by (simp add: filterMetricFamilies_def allowDenyPolicy_def family_created_def family_info_def)
  with ret gone named show ?thesis by simp
qed

subsection \<open>C2: a generator that panics\<close>

text \<open>
  Claim C2, as the code has it: when the generators are called in the order of the list
  and generator \<open>k\<close> is the first to panic on the object, the composed function panics
  with that panic, in the memory that generator left; no list of blocks is returned and
  the generators behind \<open>k\<close> are not called.
\<close>

theorem composeMetricGenFuncs_panic_propagates:
  assumes "k < length families"
    and "GenerateFunc (families ! k) obj
           (mem_after obj (take k (map GenerateFunc families)) s) = (Inl e, t)"
    and "\<forall>i<k. \<exists>r u. GenerateFunc (families ! i) obj
           (mem_after obj (take i (map GenerateFunc families)) s) = (Inr r, u)"
  shows "composeMetricGenFuncs families obj s = (Inl e, t)"
proof -
  let ?funcs = "map GenerateFunc families"
  have k: "k < length ?funcs" using assms(1) by simp
  have at_k: "(?funcs ! k) obj (mem_after obj (take k ?funcs) s) = (Inl e, t)"
    using assms(1,2) by simp
  have before: "\<forall>i<k. \<exists>r u. (?funcs ! i) obj (mem_after obj (take i ?funcs) s) = (Inr r, u)"
    using assms(1,3) by simp
  from run_in_order_Inl [OF k at_k before] show ?thesis
    by (simp add: composeMetricGenFuncs_run)
qed

theorem composeMetricGenFuncs_panic_propagates_witness:
  "(1::nat) < length [family_info, family_nil] \<and>
   GenerateFunc ([family_info, family_nil] ! 1) (PodDisruptionBudgetPtr (Some web_budget))
     (mem_after (PodDisruptionBudgetPtr (Some web_budget))
        (take 1 (map GenerateFunc [family_info, family_nil])) no_metrics) =
     (Inl NilDereference, no_metrics) \<and>
   composeMetricGenFuncs [family_info, family_nil] (PodDisruptionBudgetPtr (Some web_budget))
     no_metrics = (Inl NilDereference, no_metrics)"
proof -
  let ?obj = "PodDisruptionBudgetPtr (Some web_budget)"
  let ?fs = "[family_info, family_nil]"
  have k: "(1::nat) < length ?fs" by simp
  have at_k: "GenerateFunc (?fs ! 1) ?obj (mem_after ?obj (take 1 (map GenerateFunc ?fs)) no_metrics)
                = (Inl NilDereference, no_metrics)"
    by (simp add: mem_after_def family_info_def family_nil_def no_metric_lines_def
        wrapPodDisruptionBudgetFunc_def nil_family_def)
  have before: "\<forall>i<1. \<exists>r u. GenerateFunc (?fs ! i) ?obj
                  (mem_after ?obj (take i (map GenerateFunc ?fs)) no_metrics) = (Inr r, u)"
    by (simp add: mem_after_def family_info_def no_metric_lines_def)
  from composeMetricGenFuncs_panic_propagates [OF k at_k before] k at_k show ?thesis
    by simp
qed

text \<open>
  C2 as stated fails: a failed type assertion in the second of two generators is the
  outcome of the composed function; the block of the first generator is lost with it.
\<close>

theorem composed_panics_on_other_object:
  "composeMetricGenFuncs [family_info, family_created] OtherObject no_metrics =
     (Inl InterfaceConversion, no_metrics)"
  by (simp add: composeMetricGenFuncs_def family_info_def family_created_def
      no_metric_lines_def wrapPodDisruptionBudgetFunc_def)

subsection \<open>C5: one block per generator, in order\<close>

text \<open>
  Claim C5, as the code has it: for every list of \<open>n\<close> generators and every object on
  which no generator panics when the generators are called in the order of the list, the
  composed function returns exactly \<open>n\<close> blocks, and block \<open>i\<close> is what generator \<open>i\<close>
  returned, called after the generators before it. (\<open>Some\<close> marks a slot of the result
  that holds a block, as opposed to the nil it was allocated with.)
\<close>

theorem composeMetricGenFuncs_blocks_in_order:
  assumes "\<forall>i<length families. \<exists>r t. GenerateFunc (families ! i) obj
             (mem_after obj (take i (map GenerateFunc families)) s) = (Inr r, t)"
  shows "\<exists>blocks. composeMetricGenFuncs families obj s =
             (Inr (map Some blocks), mem_after obj (map GenerateFunc families) s) \<and>
           length blocks = length families \<and>
           (\<forall>i<length families.
              fst (GenerateFunc (families ! i) obj
                     (mem_after obj (take i (map GenerateFunc families)) s)) = Inr (blocks ! i))"
proof -
  let ?funcs = "map GenerateFunc families"
  have "\<forall>i<length ?funcs. \<exists>r t. (?funcs ! i) obj (mem_after obj (take i ?funcs) s) = (Inr r, t)"
    using assms by simp
  from run_in_order_Inr [OF this] obtain rs where
    rs: "run_in_order obj ?funcs s = (Inr rs, mem_after obj ?funcs s)"
        "length rs = length ?funcs"
        "\<forall>i<length ?funcs. fst ((?funcs ! i) obj (mem_after obj (take i ?funcs) s)) = Inr (rs ! i)"
    by blast
  have "composeMetricGenFuncs families obj s = (Inr (map Some rs), mem_after obj ?funcs s)"
    using rs(1) by (simp add: composeMetricGenFuncs_run)
  moreover have "length rs = length families" using rs(2) by simp
  moreover have "\<forall>i<length families.
       fst (GenerateFunc (families ! i) obj (mem_after obj (take i ?funcs) s)) = Inr (rs ! i)"
    using rs(3) by simp
  ultimately show ?thesis by blast
qed

theorem composeMetricGenFuncs_blocks_in_order_witness:
  "composeMetricGenFuncs [family_info, family_created] (PodDisruptionBudgetPtr (Some web_budget))
     no_metrics =
   (Inr [Some (Some \<lparr>Metrics = []\<rparr>), Some (Some \<lparr>Metrics = [Some 0]\<rparr>)],
    mem_after (PodDisruptionBudgetPtr (Some web_budget))
      (map GenerateFunc [family_info, family_created]) no_metrics)"
proof -
  let ?obj = "PodDisruptionBudgetPtr (Some web_budget)"
  let ?fs = "[family_info, family_created]"
  have hyp: "\<forall>i<length ?fs. \<exists>r t. GenerateFunc (?fs ! i) ?obj
               (mem_after ?obj (take i (map GenerateFunc ?fs)) no_metrics) = (Inr r, t)"
    by (auto simp: less_Suc_eq mem_after_def family_info_def family_created_def
        no_metric_lines_def wrapPodDisruptionBudgetFunc_def one_metric_def)
  from composeMetricGenFuncs_blocks_in_order [OF hyp] obtain blocks where
    b: "composeMetricGenFuncs ?fs ?obj no_metrics =
          (Inr (map Some blocks), mem_after ?obj (map GenerateFunc ?fs) no_metrics)"
       "length blocks = length ?fs"
       "\<forall>i<length ?fs. fst (GenerateFunc (?fs ! i) ?obj
            (mem_after ?obj (take i (map GenerateFunc ?fs)) no_metrics)) = Inr (blocks ! i)"
    by blast
  from b(3) [rule_format, of 0] b(3) [rule_format, of 1]
  have "blocks ! 0 = Some \<lparr>Metrics = []\<rparr>" "blocks ! 1 = Some \<lparr>Metrics = [Some 0]\<rparr>"
    by (simp_all add: mem_after_def family_info_def family_created_def
        no_metric_lines_def wrapPodDisruptionBudgetFunc_def one_metric_def)
  with b(2) have "blocks = [Some \<lparr>Metrics = []\<rparr>, Some \<lparr>Metrics = [Some 0]\<rparr>]"
    by (cases blocks; cases "tl blocks") auto
  with b(1) show ?thesis by simp
qed

text \<open>
  C5 as stated fails: one generator whose inner function returns a nil family gives no
  block at all for a well-formed object.
\<close>

theorem composed_returns_no_block_for_nil_family:
  "composeMetricGenFuncs [family_nil] (PodDisruptionBudgetPtr (Some web_budget)) no_metrics =
     (Inl NilDereference, no_metrics)"
  by (simp add: composeMetricGenFuncs_def family_nil_def wrapPodDisruptionBudgetFunc_def
      nil_family_def)

subsection \<open>C6: the headers handed to the store\<close>

text \<open>
  Claim C6, as the code has it: the header list that \<open>buildDaemonSetCollector\<close> hands
  to the store has one entry per filtered family, in the order of the list, each entry
  being the name of the family, a space and its help text; it is computed from the
  generator list alone. The type of the family is not part of an entry. The constructor
  returns when the policy answers for the names of the table and the context is not nil
  (or there is no namespace).
\<close>

theorem store_headers_from_families:
  assumes "whiteBlackList b = Some p"
  shows "(\<forall>collector running.
            buildDaemonSetCollector t b = Inr (collector, running) \<longrightarrow>
            headers (store collector) =
              map (\<lambda>f. Name f @ '' '' @ Help f)
                (filter (\<lambda>f. IsIncluded p (Name f) = Inr True) (daemonSetMetricFamilies t)) \<and>
            length (headers (store collector)) =
              length (filter (\<lambda>f. IsIncluded p (Name f) = Inr True) (daemonSetMetricFamilies t)) \<and>
            generateMetricsFunc (store collector) =
              composeMetricGenFuncs
                (filter (\<lambda>f. IsIncluded p (Name f) = Inr True) (daemonSetMetricFamilies t))) \<and>
         ((\<forall>f\<in>set (daemonSetMetricFamilies t). \<not> isl (IsIncluded p (Name f))) \<and>
          (ctx b \<noteq> None \<or> namespaces b = []) \<longrightarrow>
          (\<exists>collector running. buildDaemonSetCollector t b = Inr (collector, running)))"
proof -
  let ?filtered = "filter (\<lambda>f. IsIncluded p (Name f) = Inr True) (daemonSetMetricFamilies t)"
  have hdr: "map header_of ?filtered = map (\<lambda>f. Name f @ '' '' @ Help f) ?filtered"
    by (simp add: header_of_def)
  have handed: "\<forall>collector running.
            buildDaemonSetCollector t b = Inr (collector, running) \<longrightarrow>
            headers (store collector) = map (\<lambda>f. Name f @ '' '' @ Help f) ?filtered \<and>
            length (headers (store collector)) = length ?filtered \<and>
            generateMetricsFunc (store collector) = composeMetricGenFuncs ?filtered"
  proof (intro allI impI)
    fix collector running
    assume "buildDaemonSetCollector t b = Inr (collector, running)"
    then have "build_collector (daemonSetMetricFamilies t) ''DaemonSet'' b = Inr (collector, running)"
      by (simp add: buildDaemonSetCollector_def)
    from build_collector_Inr [OF assms this] hdr
    show "headers (store collector) = map (\<lambda>f. Name f @ '' '' @ Help f) ?filtered \<and>
          length (headers (store collector)) = length ?filtered \<and>
          generateMetricsFunc (store collector) = composeMetricGenFuncs ?filtered"
      by (simp add: NewCollector_def NewMetricsStore_def extractHelpText_map)
  qed
  have returns: "(\<forall>f\<in>set (daemonSetMetricFamilies t). \<not> isl (IsIncluded p (Name f))) \<and>
          (ctx b \<noteq> None \<or> namespaces b = []) \<longrightarrow>
          (\<exists>collector running. buildDaemonSetCollector t b = Inr (collector, running))"
  proof (intro impI)
    assume "(\<forall>f\<in>set (daemonSetMetricFamilies t). \<not> isl (IsIncluded p (Name f))) \<and>
            (ctx b \<noteq> None \<or> namespaces b = [])"
    then have "\<not> isl (build_collector (daemonSetMetricFamilies t) ''DaemonSet'' b)"
      by (auto simp: build_collector_isl_iff [OF assms])
    then show "\<exists>collector running. buildDaemonSetCollector t b = Inr (collector, running)"
      by (cases "build_collector (daemonSetMetricFamilies t) ''DaemonSet'' b")
         (auto simp: buildDaemonSetCollector_def)
  qed
  from handed returns show ?thesis by (intro conjI)
qed

theorem store_headers_from_families_witness:
  "\<not> isl (buildDaemonSetCollector budget_tables deny_builder) \<and>
   headers (store (fst (projr (buildDaemonSetCollector budget_tables deny_builder)))) =
     [''kube_poddisruptionbudget_info Information'']"
proof -
  have p: "whiteBlackList deny_builder = Some deny_created"
    by (simp add: deny_builder_def WithNamespaces_def WithWhiteBlackList_def NewBuilder_def)
  note main = store_headers_from_families [OF p, of budget_tables]
  have hyp: "(\<forall>f\<in>set (daemonSetMetricFamilies budget_tables).
                \<not> isl (IsIncluded deny_created (Name f))) \<and>
             (ctx deny_builder \<noteq> None \<or> namespaces deny_builder = [])"
    by (simp add: deny_created_answers deny_builder_def WithNamespaces_def
        WithWhiteBlackList_def NewBuilder_def)
  from main hyp obtain collector running where
    r: "buildDaemonSetCollector budget_tables deny_builder = Inr (collector, running)"
    by blast
  with main have "headers (store collector) =
      map (\<lambda>f. Name f @ '' '' @ Help f)
        (filter (\<lambda>f. IsIncluded deny_created (Name f) = Inr True)
           (daemonSetMetricFamilies budget_tables))"
    by blast
  then have "headers (store collector) = [''kube_poddisruptionbudget_info Information'']"
    by (simp add: budget_tables_def deny_created_def allowDenyPolicy_def family_created_def
        family_info_def)
  with r show ?thesis by simp
qed

text \<open>
  C6 as stated fails: two families that differ in their type only have the same
  header.
\<close>

theorem headers_do_not_tell_the_type:
  "extractHelpText [family_created] = extractHelpText [family_created_counter] \<and>
   Type family_created = Gauge \<and> Type family_created_counter = Counter"
  by (simp add: extractHelpText_def family_created_def family_created_counter_def)

subsection \<open>C7: composing pure generators\<close>

text \<open>
  Claim C7: if the generation function of every generator is pure, the composed function
  is deterministic: applied to an object it gives the same outcome in any two memories
  \<open>s\<close> and \<open>t\<close>, whatever earlier calls on this or on other objects have left there,
  and it leaves the memory as it found it; that is, the composed function is pure.
\<close>

theorem composeMetricGenFuncs_pure:
  assumes "\<forall>g\<in>set families. pure_func (GenerateFunc g)"
  shows "fst (composeMetricGenFuncs families obj s) = fst (composeMetricGenFuncs families obj t) \<and>
         snd (composeMetricGenFuncs families obj s) = s \<and>
         pure_func (composeMetricGenFuncs families)"
proof -
  have funcs: "\<forall>f\<in>set (map GenerateFunc families). pure_func f" using assms by simp
  have same: "fst (composeMetricGenFuncs families o1 s1) = fst (composeMetricGenFuncs families o1 t1) \<and>
              snd (composeMetricGenFuncs families o1 s1) = s1" for o1 s1 t1
    using run_in_order_pure [OF funcs, of o1 s1 t1] run_in_order_pure [OF funcs, of o1 t1 s1]
    by (auto simp: composeMetricGenFuncs_run split: prod.splits sum.splits)
  then have "pure_func (composeMetricGenFuncs families)"
    by (simp add: pure_func_def)
  with same [of obj s t] show ?thesis by simp
qed

theorem composeMetricGenFuncs_pure_witness:
  "fst (composeMetricGenFuncs [family_info, family_info] OtherObject no_metrics) =
     fst (composeMetricGenFuncs [family_info, family_info] OtherObject
            (snd (one_metric None no_metrics))) \<and>
   snd (composeMetricGenFuncs [family_info, family_info] OtherObject no_metrics) = no_metrics"
proof -
  have "\<forall>g\<in>set [family_info, family_info]. pure_func (GenerateFunc g)"
    by (simp add: family_info_def pure_no_metric_lines)
  from composeMetricGenFuncs_pure [OF this, of OtherObject no_metrics
      "snd (one_metric None no_metrics)"]
  show ?thesis by simp
qed

subsection \<open>C9: the labels of a wrapped generator\<close>

text \<open>
  Claim C9, as the code has it: for every PodDisruptionBudget object and every inner
  function \<open>f\<close> that returns a family of non-nil metrics, the wrapped function returns
  that family; a metric whose key and value lists had equal length keeps lists of equal
  length; and if no metric is listed twice, the keys of every metric are \<open>namespace\<close>,
  \<open>poddisruptionbudget\<close> followed by the keys \<open>f\<close> gave it, and its values are the
  namespace and name of the object followed by the values \<open>f\<close> gave it.
\<close>

theorem wrapPodDisruptionBudgetFunc_labels:
  assumes "f (Some pdb) h = (Inr (Some metricFamily), h')"
    and "Metrics metricFamily = map Some ms"
  shows "\<exists>h''. wrapPodDisruptionBudgetFunc f (PodDisruptionBudgetPtr (Some pdb)) h =
                 (Inr (Some metricFamily), h'') \<and>
          (\<forall>m\<in>set ms.
             length (LabelKeys (h' m)) = length (LabelValues (h' m)) \<longrightarrow>
             length (LabelKeys (h'' m)) = length (LabelValues (h'' m))) \<and>
          (distinct ms \<longrightarrow>
            (\<forall>m\<in>set ms.
               LabelKeys (h'' m) = [''namespace'', ''poddisruptionbudget''] @ LabelKeys (h' m) \<and>
               LabelValues (h'' m) = [Namespace pdb, ObjectName pdb] @ LabelValues (h' m) \<and>
               Value (h'' m) = Value (h' m)))"
proof -
  let ?h = "\<lambda>a. prefixed pdb (count_list ms a) (h' a)"
  have ret: "wrapPodDisruptionBudgetFunc f (PodDisruptionBudgetPtr (Some pdb)) h =
               (Inr (Some metricFamily), ?h)"
    using assms by (rule wrap_returns [of f pdb h metricFamily h' ms])
  have len: "\<forall>m\<in>set ms. length (LabelKeys (h' m)) = length (LabelValues (h' m)) \<longrightarrow>
               length (LabelKeys (?h m)) = length (LabelValues (?h m))"
    by (simp add: prefixed_def length_concat descPodDisruptionBudgetLabelsDefaultLabels_def
        sum_list_replicate)
  have once: "distinct ms \<longrightarrow>
          (\<forall>m\<in>set ms.
             LabelKeys (?h m) = [''namespace'', ''poddisruptionbudget''] @ LabelKeys (h' m) \<and>
             LabelValues (?h m) = [Namespace pdb, ObjectName pdb] @ LabelValues (h' m) \<and>
             Value (?h m) = Value (h' m))"
    by (simp add: prefixed_def count_list_distinct
        descPodDisruptionBudgetLabelsDefaultLabels_def)
  from ret len once show ?thesis by blast
qed

theorem wrapPodDisruptionBudgetFunc_labels_witness:
  "fst (wrapPodDisruptionBudgetFunc one_metric (PodDisruptionBudgetPtr (Some web_budget))
          no_metrics) = Inr (Some \<lparr>Metrics = [Some 0]\<rparr>) \<and>
   LabelKeys (snd (wrapPodDisruptionBudgetFunc one_metric
                     (PodDisruptionBudgetPtr (Some web_budget)) no_metrics) 0) =
     [''namespace'', ''poddisruptionbudget'', ''k''] \<and>
   LabelValues (snd (wrapPodDisruptionBudgetFunc one_metric
                     (PodDisruptionBudgetPtr (Some web_budget)) no_metrics) 0) =
     [''default'', ''web'', ''v'']"
proof -
  let ?h' = "no_metrics(0 := \<lparr>LabelKeys = [''k''], LabelValues = [''v''], Value = 1\<rparr>)"
  let ?fam = "\<lparr>Metrics = [Some 0]\<rparr>"
  have f: "one_metric (Some web_budget) no_metrics = (Inr (Some ?fam), ?h')"
    by (simp add: one_metric_def)
  have ms: "Metrics ?fam = map Some [0]" by simp
  have d: "distinct [0::nat]" by simp
  from wrapPodDisruptionBudgetFunc_labels [of one_metric web_budget no_metrics ?fam ?h' "[0]", OF f ms] d
  show ?thesis
    by (auto simp: web_budget_def)
qed

text \<open>
  C9 as stated fails: a metric that the family lists twice gets the default labels
  twice.
\<close>

theorem wrap_prefixes_shared_metric_twice:
  "fst (wrapPodDisruptionBudgetFunc same_metric_twice (PodDisruptionBudgetPtr (Some web_budget))
          no_metrics) = Inr (Some \<lparr>Metrics = [Some 0, Some 0]\<rparr>) \<and>
   LabelKeys (snd (same_metric_twice (Some web_budget) no_metrics) 0) = [''k''] \<and>
   LabelKeys (snd (wrapPodDisruptionBudgetFunc same_metric_twice
                     (PodDisruptionBudgetPtr (Some web_budget)) no_metrics) 0) =
     [''namespace'', ''poddisruptionbudget'', ''namespace'', ''poddisruptionbudget'', ''k'']"
  by (simp add: wrapPodDisruptionBudgetFunc_def same_metric_twice_def
      descPodDisruptionBudgetLabelsDefaultLabels_def)

subsection \<open>C10: the enabled collectors are a sorted copy\<close>

text \<open>
  Claim C10: for every slice of names, \<open>WithEnabledCollectors\<close> leaves in the builder
  a slice that holds a sorted permutation of the names; the slice lies in an array of
  its own, so a later write to any array that existed before the call does not change
  what the builder reads; and whenever \<open>Build\<close> returns, it has constructed its
  collectors in the sorted order of the names. \<open>Build\<close> does return when the builder
  has a policy that answers and a context that is not nil (or no namespace).
\<close>

theorem WithEnabledCollectors_sorted_copy:
  assumes "\<forall>sl. c = Some sl \<longrightarrow> array sl < next_free mem"
    and "WithEnabledCollectors mem b c = (mem', b')"
  shows "sorted (elems mem' (enabledCollectors b')) \<and>
         mset (elems mem' (enabledCollectors b')) = mset (elems mem c) \<and>
         (\<forall>a xs. a < next_free mem \<longrightarrow>
            elems (write_array mem' a xs) (enabledCollectors b') =
            elems mem' (enabledCollectors b')) \<and>
         (\<forall>r. Build t mem' b' = Inr r \<longrightarrow>
            activeCollectorNames r =
              filter (\<lambda>n. constructor_for t b' n \<noteq> None) (sort (elems mem c)) \<and>
            sorted (activeCollectorNames r) \<and>
            list_all2
              (\<lambda>n collector. \<exists>running.
                 constructor_for t b' n = Some (Inr (collector, running)))
              (activeCollectorNames r) (collectors r)) \<and>
         (\<forall>p. whiteBlackList b = Some p \<and> (\<forall>n. \<not> isl (IsIncluded p n)) \<and>
              (ctx b \<noteq> None \<or> namespaces b = []) \<longrightarrow>
            (\<exists>r. Build t mem' b' = Inr r))"
proof -
  note e = elems_after_WithEnabledCollectors [OF assms]
  note same = builder_fields_after_WithEnabledCollectors [OF assms(2)]
  have order: "\<forall>r. Build t mem' b' = Inr r \<longrightarrow>
            activeCollectorNames r =
              filter (\<lambda>n. constructor_for t b' n \<noteq> None) (sort (elems mem c)) \<and>
            sorted (activeCollectorNames r) \<and>
            list_all2
              (\<lambda>n collector. \<exists>running.
                 constructor_for t b' n = Some (Inr (collector, running)))
              (activeCollectorNames r) (collectors r)"
  proof (intro allI impI)
    fix r assume "Build t mem' b' = Inr r"
    note built = Build_Inr [OF this]
    have names: "activeCollectorNames r =
                   filter (\<lambda>n. constructor_for t b' n \<noteq> None) (sort (elems mem c))"
      using built [THEN conjunct1] by (simp only: e(1))
    have each: "list_all2
        (\<lambda>n collector. \<exists>running. constructor_for t b' n = Some (Inr (collector, running)))
        (activeCollectorNames r) (collectors r)"
      by (rule built [THEN conjunct2, THEN conjunct1])
    have "sorted (activeCollectorNames r)"
      unfolding names by (rule sorted_wrt_filter) simp
    with names each
    show "activeCollectorNames r =
              filter (\<lambda>n. constructor_for t b' n \<noteq> None) (sort (elems mem c)) \<and>
            sorted (activeCollectorNames r) \<and>
            list_all2
              (\<lambda>n collector. \<exists>running.
                 constructor_for t b' n = Some (Inr (collector, running)))
              (activeCollectorNames r) (collectors r)"
      by (intro conjI)
  qed
  have returns: "\<forall>p. whiteBlackList b = Some p \<and> (\<forall>n. \<not> isl (IsIncluded p n)) \<and>
              (ctx b \<noteq> None \<or> namespaces b = []) \<longrightarrow>
            (\<exists>r. Build t mem' b' = Inr r)"
  proof (intro allI impI)
    fix p
    assume h: "whiteBlackList b = Some p \<and> (\<forall>n. \<not> isl (IsIncluded p n)) \<and>
               (ctx b \<noteq> None \<or> namespaces b = [])"
    with same have "whiteBlackList b' = Some p" "\<forall>n. \<not> isl (IsIncluded p n)"
      "ctx b' \<noteq> None \<or> namespaces b' = []"
      by simp_all
    then show "\<exists>r. Build t mem' b' = Inr r" by (rule Build_returns)
  qed
  have sorted_copy: "sorted (elems mem' (enabledCollectors b'))"
    "mset (elems mem' (enabledCollectors b')) = mset (elems mem c)"
    by (simp_all add: e(1))
  have fresh: "\<forall>a xs. a < next_free mem \<longrightarrow>
            elems (write_array mem' a xs) (enabledCollectors b') =
            elems mem' (enabledCollectors b')"
    by (simp add: e(1,2))
  from sorted_copy fresh order returns show ?thesis by (intro conjI)
qed

theorem WithEnabledCollectors_sorted_copy_witness:
  "elems (fst (WithEnabledCollectors caller_memory deny_builder (Some caller_slice)))
     (enabledCollectors (snd (WithEnabledCollectors caller_memory deny_builder (Some caller_slice))))
     = [''daemonsets'', ''nodes'', ''pods''] \<and>
   elems (write_array (fst (WithEnabledCollectors caller_memory deny_builder (Some caller_slice)))
            0 [''zebras'', ''pods'', ''apes''])
     (enabledCollectors (snd (WithEnabledCollectors caller_memory deny_builder (Some caller_slice))))
     = [''daemonsets'', ''nodes'', ''pods''] \<and>
   activeCollectorNames
     (projr (Build budget_tables
               (fst (WithEnabledCollectors caller_memory deny_builder (Some caller_slice)))
               (snd (WithEnabledCollectors caller_memory deny_builder (Some caller_slice)))))
     = [''daemonsets'', ''pods'']"
proof -
  let ?w = "WithEnabledCollectors caller_memory deny_builder (Some caller_slice)"
  let ?E = "elems (fst ?w) (enabledCollectors (snd ?w))"
  have wf: "\<forall>sl. Some caller_slice = Some sl \<longrightarrow> array sl < next_free caller_memory"
    by (simp add: caller_slice_def caller_memory_def)
  have w: "?w = (fst ?w, snd ?w)" by simp
  have s: "sort (elems caller_memory (Some caller_slice)) = [''daemonsets'', ''nodes'', ''pods'']"
    by (simp add: elems_def caller_memory_def caller_slice_def less_eq_char_def less_char_def)
  have old: "(0::nat) < next_free caller_memory" by (simp add: caller_memory_def)
  note main = WithEnabledCollectors_sorted_copy [OF wf w, of budget_tables]
  from main have st: "sorted ?E" by (rule conjunct1)
  from main have ms: "mset ?E = mset (elems caller_memory (Some caller_slice))"
    by (rule conjunct2 [THEN conjunct1])
  from main have fr: "\<forall>a xs. a < next_free caller_memory \<longrightarrow>
      elems (write_array (fst ?w) a xs) (enabledCollectors (snd ?w)) = ?E"
    by (rule conjunct2 [THEN conjunct2, THEN conjunct1])
  have "sort (elems caller_memory (Some caller_slice)) = ?E"
    by (rule properties_for_sort [OF ms st])
  with s have E: "?E = [''daemonsets'', ''nodes'', ''pods'']" by simp
  from main have order: "\<forall>r. Build budget_tables (fst ?w) (snd ?w) = Inr r \<longrightarrow>
           activeCollectorNames r =
             filter (\<lambda>n. constructor_for budget_tables (snd ?w) n \<noteq> None)
               (sort (elems caller_memory (Some caller_slice))) \<and>
           sorted (activeCollectorNames r) \<and>
           list_all2
             (\<lambda>n collector. \<exists>running.
                constructor_for budget_tables (snd ?w) n = Some (Inr (collector, running)))
             (activeCollectorNames r) (collectors r)"
    by (rule conjunct2 [THEN conjunct2, THEN conjunct2, THEN conjunct1])
  from main have returns: "\<forall>p. whiteBlackList deny_builder = Some p \<and>
        (\<forall>n. \<not> isl (IsIncluded p n)) \<and>
        (ctx deny_builder \<noteq> None \<or> namespaces deny_builder = []) \<longrightarrow>
        (\<exists>r. Build budget_tables (fst ?w) (snd ?w) = Inr r)"
    by (rule conjunct2 [THEN conjunct2, THEN conjunct2, THEN conjunct2])
  have hyp: "whiteBlackList deny_builder = Some deny_created \<and>
        (\<forall>n. \<not> isl (IsIncluded deny_created n)) \<and>
        (ctx deny_builder \<noteq> None \<or> namespaces deny_builder = [])"
    by (simp add: deny_created_answers deny_builder_def WithNamespaces_def
        WithWhiteBlackList_def NewBuilder_def)
  from returns hyp obtain r where r: "Build budget_tables (fst ?w) (snd ?w) = Inr r"
    by blast
  with order have "activeCollectorNames r =
             filter (\<lambda>n. constructor_for budget_tables (snd ?w) n \<noteq> None)
               (sort (elems caller_memory (Some caller_slice)))"
    by blast
  with r have names: "activeCollectorNames (projr (Build budget_tables (fst ?w) (snd ?w))) =
                      [''daemonsets'', ''pods'']"
    by (simp add: s constructor_for_None_iff)
  from fr [rule_format, OF old, of "[''zebras'', ''pods'', ''apes'']"] E names show ?thesis
    by (simp only: simp_thms)
qed

subsection \<open>C3: names without a constructor\<close>

text \<open>
  Claim C3: for every list of enabled names, a name without a constructor changes
  nothing: \<open>Build\<close> has the very outcome it has on the list without such names, so an
  unknown name never makes it fail. Whenever \<open>Build\<close> returns, it returns one collector
  for each enabled name that has a constructor, in the order of the names, each being
  what the constructor of its name returns. \<open>Build\<close> does return when the builder has a
  policy that answers and a context that is not nil (or no namespace).
\<close>

theorem Build_skips_unknown_names:
  "(\<forall>mem' sl.
      elems mem' sl =
        filter (\<lambda>c. constructor_for t b c \<noteq> None) (elems mem (enabledCollectors b)) \<longrightarrow>
      Build t mem' (b\<lparr>enabledCollectors := sl\<rparr>) = Build t mem b) \<and>
   (\<forall>r. Build t mem b = Inr r \<longrightarrow>
      activeCollectorNames r =
        filter (\<lambda>c. constructor_for t b c \<noteq> None) (elems mem (enabledCollectors b)) \<and>
      length (collectors r) = length (activeCollectorNames r) \<and>
      list_all2
        (\<lambda>c collector. \<exists>running. constructor_for t b c = Some (Inr (collector, running)))
        (activeCollectorNames r) (collectors r)) \<and>
   (\<forall>l. whiteBlackList b = Some l \<and> (\<forall>n. \<not> isl (IsIncluded l n)) \<and>
        (ctx b \<noteq> None \<or> namespaces b = []) \<longrightarrow>
      (\<exists>r. Build t mem b = Inr r))"
proof -
  have skip: "\<forall>mem' sl.
      elems mem' sl =
        filter (\<lambda>c. constructor_for t b c \<noteq> None) (elems mem (enabledCollectors b)) \<longrightarrow>
      Build t mem' (b\<lparr>enabledCollectors := sl\<rparr>) = Build t mem b"
    by (intro allI impI) (rule Build_skips)
  have result: "\<forall>r. Build t mem b = Inr r \<longrightarrow>
      activeCollectorNames r =
        filter (\<lambda>c. constructor_for t b c \<noteq> None) (elems mem (enabledCollectors b)) \<and>
      length (collectors r) = length (activeCollectorNames r) \<and>
      list_all2
        (\<lambda>c collector. \<exists>running. constructor_for t b c = Some (Inr (collector, running)))
        (activeCollectorNames r) (collectors r)"
  proof (intro allI impI)
    fix r assume "Build t mem b = Inr r"
    note built = Build_Inr [OF this]
    have names: "activeCollectorNames r =
                   filter (\<lambda>c. constructor_for t b c \<noteq> None) (elems mem (enabledCollectors b))"
      by (rule built [THEN conjunct1])
    have each: "list_all2
        (\<lambda>c collector. \<exists>running. constructor_for t b c = Some (Inr (collector, running)))
        (activeCollectorNames r) (collectors r)"
      by (rule built [THEN conjunct2, THEN conjunct1])
    from each have "length (collectors r) = length (activeCollectorNames r)"
      by (simp add: list_all2_lengthD)
    with names each
    show "activeCollectorNames r =
        filter (\<lambda>c. constructor_for t b c \<noteq> None) (elems mem (enabledCollectors b)) \<and>
      length (collectors r) = length (activeCollectorNames r) \<and>
      list_all2
        (\<lambda>c collector. \<exists>running. constructor_for t b c = Some (Inr (collector, running)))
        (activeCollectorNames r) (collectors r)"
      by simp
  qed
  have returns: "\<forall>l. whiteBlackList b = Some l \<and> (\<forall>n. \<not> isl (IsIncluded l n)) \<and>
        (ctx b \<noteq> None \<or> namespaces b = []) \<longrightarrow>
      (\<exists>r. Build t mem b = Inr r)"
    by (intro allI impI) (elim conjE, rule Build_returns)
  from skip result returns show ?thesis by (intro conjI)
qed

theorem Build_skips_unknown_names_witness:
  "\<not> isl (Build budget_tables (fst configured) (snd configured)) \<and>
   activeCollectorNames (projr (Build budget_tables (fst configured) (snd configured))) =
     [''daemonsets'', ''pods''] \<and>
   length (collectors (projr (Build budget_tables (fst configured) (snd configured)))) = 2 \<and>
   Build budget_tables (write_array (fst configured) 5 [''daemonsets'', ''pods''])
     ((snd configured)\<lparr>enabledCollectors := Some \<lparr>array = 5, offset = 0, len = 2\<rparr>\<rparr>) =
   Build budget_tables (fst configured) (snd configured)"
proof -
  note main = Build_skips_unknown_names [of budget_tables "snd configured" "fst configured"]
  have known: "filter (\<lambda>c. constructor_for budget_tables (snd configured) c \<noteq> None)
                 (elems (fst configured) (enabledCollectors (snd configured))) =
               [''daemonsets'', ''pods'']"
    by (simp add: configured_facts(1) constructor_for_None_iff)
  have hyp: "whiteBlackList (snd configured) = Some deny_created \<and>
             (\<forall>n. \<not> isl (IsIncluded deny_created n)) \<and>
             (ctx (snd configured) \<noteq> None \<or> namespaces (snd configured) = [])"
    by (simp add: configured_facts deny_created_answers)
  from main hyp obtain r where r: "Build budget_tables (fst configured) (snd configured) = Inr r"
    by blast
  from main r have names: "activeCollectorNames r = [''daemonsets'', ''pods'']"
    and len: "length (collectors r) = length (activeCollectorNames r)"
    unfolding known by blast+
  have "elems (write_array (fst configured) 5 [''daemonsets'', ''pods''])
          (Some \<lparr>array = 5, offset = 0, len = 2\<rparr>) =
        filter (\<lambda>c. constructor_for budget_tables (snd configured) c \<noteq> None)
          (elems (fst configured) (enabledCollectors (snd configured)))"
    unfolding known by (simp add: elems_def write_array_def)
  with main have "Build budget_tables (write_array (fst configured) 5 [''daemonsets'', ''pods''])
     ((snd configured)\<lparr>enabledCollectors := Some \<lparr>array = 5, offset = 0, len = 2\<rparr>\<rparr>) =
     Build budget_tables (fst configured) (snd configured)"
    by blast
  with r names len show ?thesis by simp
qed

subsection \<open>C4: when Build panics\<close>




end
